theory Spec2Isabelle
  imports Complex_Main "HOL-Library.Word" "HOL-Library.AList"
begin

section \<open>JavaScript values shared by the modules\<close>

text \<open>
  The request-security layer is written in JavaScript for Node. A value that may be
  absent (\<^verbatim>\<open>undefined\<close>) is an \<open>option\<close>; the guards test such values with \<^verbatim>\<open>!v\<close>,
  which holds for \<^verbatim>\<open>undefined\<close> and for the empty string. A \<^verbatim>\<open>Buffer\<close> is a list of bytes;
  \<^verbatim>\<open>Buffer.toString('hex')\<close> writes two lower-case digits per byte. Text is kept in
  8-bit characters unless a module converts between text and bytes itself.
\<close>

type_synonym byte = "8 word"

definition truthy :: "string option \<Rightarrow> bool" where
  "truthy v = (case v of None \<Rightarrow> False | Some s \<Rightarrow> s \<noteq> [])"

definition hexDigit :: "nat \<Rightarrow> char" where
  "hexDigit n = ''0123456789abcdef'' ! n"

definition hexByte :: "byte \<Rightarrow> string" where
  "hexByte b = [hexDigit (unat b div 16), hexDigit (unat b mod 16)]"

definition toHex :: "byte list \<Rightarrow> string" where
  "toHex bs = concat (map hexByte bs)"

definition squote :: char where "squote = CHR 0x27"

definition dquote :: char where "dquote = CHR 0x22"

definition backslash :: char where "backslash = CHR 0x5C"

definition backtick :: char where "backtick = CHR 0x60"

text \<open>Every middleware either hands the request on or answers with a status and message.\<close>

datatype outcome = Next | Respond nat string

section \<open>CSRF guard (src/security/csrf.js)\<close>

text \<open>
  \<^verbatim>\<open>verifyCsrfToken(req, res, next)\<close> reads the method, the cookie \<^verbatim>\<open>csrfToken\<close> and the
  header \<^verbatim>\<open>x-csrf-token\<close>. It either calls \<^verbatim>\<open>next()\<close> or answers with status 403 and
  the JSON body \<^verbatim>\<open>{success: false, message}\<close>.
\<close>

record csrf_request =
  req_method :: string
  cookie_csrfToken :: "string option"
  header_x_csrf_token :: "string option"

definition safe_methods :: "string list" where
  "safe_methods = [''GET'', ''HEAD'', ''OPTIONS'']"

definition verifyCsrfToken :: "csrf_request \<Rightarrow> outcome" where
  "verifyCsrfToken req =
    (if req_method req \<in> set safe_methods then Next
     else
       let cookieToken = cookie_csrfToken req;
           headerToken = header_x_csrf_token req
       in if \<not> truthy cookieToken \<or> \<not> truthy headerToken
          then Respond 403 ''CSRF token missing''
          else if cookieToken \<noteq> headerToken
          then Respond 403 ''CSRF token invalid''
          else Next)"

text \<open>
  Claim C6. A request whose method is GET, HEAD or OPTIONS passes whatever its tokens
  are. For every other method the request passes only when cookie and header are both
  present and equal character for character (and it does pass when they are equal and
  not empty); when either is absent or the two differ the answer is status 403 with one
  of the two forgery messages.
\<close>

theorem verifyCsrfToken_double_submit:
  "(req_method req \<in> {''GET'', ''HEAD'', ''OPTIONS''} \<longrightarrow> verifyCsrfToken req = Next) \<and>
   (req_method req \<notin> {''GET'', ''HEAD'', ''OPTIONS''} \<longrightarrow>
      (verifyCsrfToken req = Next \<longrightarrow>
         (\<exists>t. cookie_csrfToken req = Some t \<and> header_x_csrf_token req = Some t)) \<and>
      ((\<exists>t. t \<noteq> [] \<and> cookie_csrfToken req = Some t \<and> header_x_csrf_token req = Some t) \<longrightarrow>
         verifyCsrfToken req = Next) \<and>
      (cookie_csrfToken req = None \<or> header_x_csrf_token req = None \<or>
       cookie_csrfToken req \<noteq> header_x_csrf_token req \<longrightarrow>
         verifyCsrfToken req = Respond 403 ''CSRF token missing'' \<or>
         verifyCsrfToken req = Respond 403 ''CSRF token invalid''))"
  by (auto simp: verifyCsrfToken_def safe_methods_def truthy_def Let_def split: option.splits)

theorem verifyCsrfToken_double_submit_witness:
  "verifyCsrfToken \<lparr>req_method = ''GET'', cookie_csrfToken = None,
       header_x_csrf_token = Some ''abc''\<rparr> = Next \<and>
   verifyCsrfToken \<lparr>req_method = ''POST'', cookie_csrfToken = Some ''abc'',
       header_x_csrf_token = Some ''abc''\<rparr> = Next \<and>
   verifyCsrfToken \<lparr>req_method = ''POST'', cookie_csrfToken = Some ''abc'',
       header_x_csrf_token = None\<rparr> = Respond 403 ''CSRF token missing'' \<and>
   verifyCsrfToken \<lparr>req_method = ''DELETE'', cookie_csrfToken = Some ''abc'',
       header_x_csrf_token = Some ''abd''\<rparr> = Respond 403 ''CSRF token invalid''"
  using
    verifyCsrfToken_double_submit [of "\<lparr>req_method = ''GET'', cookie_csrfToken = None,
       header_x_csrf_token = Some ''abc''\<rparr>"]
    verifyCsrfToken_double_submit [of "\<lparr>req_method = ''POST'', cookie_csrfToken = Some ''abc'',
       header_x_csrf_token = Some ''abc''\<rparr>"]
  by (simp add: verifyCsrfToken_def safe_methods_def truthy_def)

section \<open>Two-factor manager (src/security/two-factor.js)\<close>

text \<open>
  Class \<^verbatim>\<open>TwoFactorAuth\<close>. The libraries it calls are parameters of the model: SHA-256 and
  AES-256-CBC of Node's \<^verbatim>\<open>crypto\<close>, \<^verbatim>\<open>speakeasy.generateSecret\<close> (which draws the
  secret itself) and \<^verbatim>\<open>qrcode.toDataURL\<close> (\<open>None\<close> when its promise rejects). The bytes
  that \<^verbatim>\<open>crypto.randomBytes\<close> returns are inputs: \<open>iv\<close> is the 16-byte draw of
  \<^verbatim>\<open>encryptSecret\<close>, and \<open>rnd k\<close> the \<open>k\<close>-th two-byte draw of \<^verbatim>\<open>generateBackupCodes\<close>.
  Calls to the security logger write to an external sink and are left out.
\<close>

record speakeasy_secret =
  base32 :: string
  otpauth_url :: string

record tfa_library =
  sha256 :: "string \<Rightarrow> byte list"
  aes_256_cbc :: "byte list \<Rightarrow> byte list \<Rightarrow> string \<Rightarrow> byte list"
  speakeasy_generateSecret :: "nat \<Rightarrow> string \<Rightarrow> string \<Rightarrow> speakeasy_secret"
  qrcode_toDataURL :: "string \<Rightarrow> string option"

record two_factor_auth =
  secretEncryptionKey :: string
  issuer :: string
  backupCodes :: "string \<rightharpoonup> string list"

record tfa_user =
  user_id :: string
  user_email :: "string option"
  user_username :: "string option"

record tfa_setup =
  setup_secret :: string
  setup_qrCode :: string
  setup_encryptedSecret :: string
  setup_backupCodes :: "string list"

datatype tfa_error = Failed_to_generate_2FA_secret

definition sha256_hex :: "tfa_library \<Rightarrow> string \<Rightarrow> string" where
  "sha256_hex lib s = toHex (sha256 lib s)"

definition encryptSecret :: "tfa_library \<Rightarrow> byte list \<Rightarrow> two_factor_auth \<Rightarrow> string \<Rightarrow> string \<Rightarrow> string" where
  "encryptSecret lib iv t secret userId =
    (let key = sha256 lib (secretEncryptionKey t @ userId);
         encrypted = toHex (aes_256_cbc lib key iv secret)
     in toHex iv @ '':'' @ encrypted)"

definition newBackupCode :: "(nat \<Rightarrow> byte list) \<Rightarrow> nat \<Rightarrow> string" where
  "newBackupCode rnd i =
     fold (\<lambda>j code. code @ toHex (rnd (3 * i + j)) @ (if j < 2 then ''-'' else ''''))
       [0..<3] ''''"

definition generateBackupCodes ::
  "tfa_library \<Rightarrow> (nat \<Rightarrow> byte list) \<Rightarrow> string \<Rightarrow> nat \<Rightarrow> two_factor_auth
     \<Rightarrow> string list \<times> two_factor_auth" where
  "generateBackupCodes lib rnd userId count t =
    (let (codes, hashes) =
           fold (\<lambda>i (codes, hashes).
                   let code = newBackupCode rnd i;
                       hash = sha256_hex lib (code @ userId)
                   in (codes @ [code], hashes @ [hash]))
             [0..<count] ([], [])
     in (codes, t\<lparr>backupCodes := (backupCodes t)(userId \<mapsto> hashes)\<rparr>))"

fun indexOf :: "'a list \<Rightarrow> 'a \<Rightarrow> nat option" where
  "indexOf [] y = None"
| "indexOf (x # xs) y = (if x = y then Some 0 else map_option Suc (indexOf xs y))"

definition splice1 :: "nat \<Rightarrow> 'a list \<Rightarrow> 'a list" where
  "splice1 index xs = take index xs @ drop (Suc index) xs"

definition verifyBackupCode ::
  "tfa_library \<Rightarrow> string \<Rightarrow> string \<Rightarrow> two_factor_auth \<Rightarrow> bool \<times> two_factor_auth" where
  "verifyBackupCode lib code userId t =
    (case backupCodes t userId of
       None \<Rightarrow> (False, t)
     | Some storedHashes \<Rightarrow>
         if storedHashes = [] then (False, t)
         else
           let inputHash = sha256_hex lib (code @ userId) in
           (case indexOf storedHashes inputHash of
              Some index \<Rightarrow>
                (True, t\<lparr>backupCodes := (backupCodes t)(userId \<mapsto> splice1 index storedHashes)\<rparr>)
            | None \<Rightarrow> (False, t)))"

definition disableTwoFactor :: "string \<Rightarrow> two_factor_auth \<Rightarrow> bool \<times> two_factor_auth" where
  "disableTwoFactor userId t = (True, t\<lparr>backupCodes := (backupCodes t)(userId := None)\<rparr>)"

definition js_or :: "string option \<Rightarrow> string option \<Rightarrow> string option" where
  "js_or a b = (if truthy a then a else b)"

definition template :: "string option \<Rightarrow> string" where
  "template v = (case v of None \<Rightarrow> ''undefined'' | Some s \<Rightarrow> s)"

definition generateSecret ::
  "tfa_library \<Rightarrow> byte list \<Rightarrow> (nat \<Rightarrow> byte list) \<Rightarrow> tfa_user \<Rightarrow> two_factor_auth
     \<Rightarrow> (tfa_error + tfa_setup) \<times> two_factor_auth" where
  "generateSecret lib iv rnd user t =
    (let secret = speakeasy_generateSecret lib 20
                    (issuer t @ '':'' @ template (js_or (user_email user) (user_username user)))
                    (issuer t);
         otpAuthUrl = otpauth_url secret
     in case qrcode_toDataURL lib otpAuthUrl of
          None \<Rightarrow> (Inl Failed_to_generate_2FA_secret, t)
        | Some qrCodeDataUrl \<Rightarrow>
            let encryptedSecret = encryptSecret lib iv t (base32 secret) (user_id user);
                (codes, t') = generateBackupCodes lib rnd (user_id user) 10 t
            in (Inr \<lparr>setup_secret = base32 secret, setup_qrCode = qrCodeDataUrl,
                      setup_encryptedSecret = encryptedSecret, setup_backupCodes = codes\<rparr>, t'))"

text \<open>
  The calls that change the stored backup codes, as they may arrive between two
  verifications (\<^verbatim>\<open>generateSecret\<close> among them, which generates a set). A call \<open>spends\<close> a code when it could remove the code's hash, and
  \<open>regenerates\<close> an account when it stores a fresh set for it.
\<close>

datatype tfa_call =
    CallVerifyBackupCode string string
  | CallDisableTwoFactor string
  | CallGenerateBackupCodes "nat \<Rightarrow> byte list" string nat
  | CallGenerateSecret "byte list" "nat \<Rightarrow> byte list" tfa_user

fun tfa_call_effect :: "tfa_library \<Rightarrow> tfa_call \<Rightarrow> two_factor_auth \<Rightarrow> two_factor_auth" where
  "tfa_call_effect lib (CallVerifyBackupCode code userId) t = snd (verifyBackupCode lib code userId t)"
| "tfa_call_effect lib (CallDisableTwoFactor userId) t = snd (disableTwoFactor userId t)"
| "tfa_call_effect lib (CallGenerateBackupCodes rnd userId count) t =
     snd (generateBackupCodes lib rnd userId count t)"
| "tfa_call_effect lib (CallGenerateSecret iv rnd user) t = snd (generateSecret lib iv rnd user t)"

definition tfa_calls :: "tfa_library \<Rightarrow> tfa_call list \<Rightarrow> two_factor_auth \<Rightarrow> two_factor_auth" where
  "tfa_calls lib calls t = fold (tfa_call_effect lib) calls t"

fun spends :: "tfa_library \<Rightarrow> string \<Rightarrow> string \<Rightarrow> tfa_call \<Rightarrow> bool" where
  "spends lib code userId (CallVerifyBackupCode c u) =
     (u = userId \<and> sha256_hex lib (c @ u) = sha256_hex lib (code @ userId))"
| "spends lib code userId (CallDisableTwoFactor u) = (u = userId)"
| "spends lib code userId (CallGenerateBackupCodes rnd u n) = (u = userId)"
| "spends lib code userId (CallGenerateSecret iv rnd user) = (user_id user = userId)"

fun regenerates :: "string \<Rightarrow> tfa_call \<Rightarrow> bool" where
  "regenerates userId (CallGenerateBackupCodes rnd u n) = (u = userId)"
| "regenerates userId (CallGenerateSecret iv rnd user) = (user_id user = userId)"
| "regenerates userId other = False"

definition stored :: "two_factor_auth \<Rightarrow> string \<Rightarrow> string list" where
  "stored t userId = (case backupCodes t userId of None \<Rightarrow> [] | Some hs \<Rightarrow> hs)"

lemma fold_codes:
  "fold (\<lambda>i (codes, hashes).
                   let code = f i; hash = g code
                   in (codes @ [code], hashes @ [hash])) is (cs, hs)
   = (cs @ map f is, hs @ map (g \<circ> f) is)"
  by (induction "is" arbitrary: cs hs) (simp_all add: Let_def)

lemma generateBackupCodes_eq:
  "generateBackupCodes lib rnd userId count t =
     (map (newBackupCode rnd) [0..<count],
      t\<lparr>backupCodes := (backupCodes t)(userId \<mapsto>
           map (\<lambda>c. sha256_hex lib (c @ userId)) (map (newBackupCode rnd) [0..<count]))\<rparr>)"
  unfolding generateBackupCodes_def fold_codes[where g = "\<lambda>c. sha256_hex lib (c @ userId)"]
  by (simp add: comp_def)

lemma indexOf_None: "indexOf xs y = None \<longleftrightarrow> y \<notin> set xs"
  by (induction xs) auto

lemma splice1_indexOf: "indexOf xs y = Some i \<Longrightarrow> splice1 i xs = remove1 y xs"
  by (induction xs arbitrary: i) (auto simp: splice1_def split: if_splits)

lemma indexOf_Some: "indexOf xs y = Some i \<Longrightarrow> y \<in> set xs"
  using indexOf_None [of xs y] by auto

lemma verifyBackupCode_eq:
  "verifyBackupCode lib code userId t =
     (if sha256_hex lib (code @ userId) \<in> set (stored t userId)
      then (True, t\<lparr>backupCodes := (backupCodes t)(userId \<mapsto>
               remove1 (sha256_hex lib (code @ userId)) (stored t userId))\<rparr>)
      else (False, t))"
  by (auto simp: verifyBackupCode_def stored_def Let_def indexOf_None splice1_indexOf
           split: option.splits dest: indexOf_Some)

lemma generateSecret_state:
  "snd (generateSecret lib iv rnd user t) = t \<or>
   snd (generateSecret lib iv rnd user t) = snd (generateBackupCodes lib rnd (user_id user) 10 t)"
  by (auto simp: generateSecret_def Let_def split: option.splits prod.splits)

lemma stored_effect_subset:
  assumes "\<not> regenerates userId call"
  shows "set (stored (tfa_call_effect lib call t) userId) \<subseteq> set (stored t userId)"
proof (cases call)
  case (CallGenerateSecret iv rnd user)
  then show ?thesis
    using assms generateSecret_state [of lib iv rnd user t]
    by (auto simp: stored_def generateBackupCodes_eq)
qed (use assms in \<open>auto simp: verifyBackupCode_eq disableTwoFactor_def stored_def
      generateBackupCodes_eq split: option.splits if_splits dest: set_mp [OF set_remove1_subset]\<close>)

lemma stored_calls_subset:
  "\<forall>call \<in> set calls. \<not> regenerates userId call \<Longrightarrow>
   set (stored (tfa_calls lib calls t) userId) \<subseteq> set (stored t userId)"
  unfolding tfa_calls_def
proof (induction calls arbitrary: t)
  case Nil
  then show ?case by simp
next
  case (Cons c cs)
  have "set (stored (fold (tfa_call_effect lib) cs (tfa_call_effect lib c t)) userId)
          \<subseteq> set (stored (tfa_call_effect lib c t) userId)"
    using Cons by simp
  also have "\<dots> \<subseteq> set (stored t userId)"
    using Cons.prems by (simp add: stored_effect_subset)
  finally show ?case by simp
qed

lemma stored_effect_keeps:
  assumes "\<not> spends lib code userId call"
    and "distinct (stored t userId)"
    and "sha256_hex lib (code @ userId) \<in> set (stored t userId)"
  shows "distinct (stored (tfa_call_effect lib call t) userId) \<and>
         sha256_hex lib (code @ userId) \<in> set (stored (tfa_call_effect lib call t) userId)"
proof (cases call)
  case (CallGenerateSecret iv rnd user)
  then show ?thesis
    using assms generateSecret_state [of lib iv rnd user t]
    by (auto simp: stored_def generateBackupCodes_eq)
qed (use assms in \<open>auto simp: verifyBackupCode_eq disableTwoFactor_def stored_def
      generateBackupCodes_eq split: option.splits if_splits\<close>)

lemma stored_calls_keep:
  assumes "\<forall>call \<in> set calls. \<not> spends lib code userId call"
    and "distinct (stored t userId)"
    and "sha256_hex lib (code @ userId) \<in> set (stored t userId)"
  shows "distinct (stored (tfa_calls lib calls t) userId) \<and>
         sha256_hex lib (code @ userId) \<in> set (stored (tfa_calls lib calls t) userId)"
  using assms unfolding tfa_calls_def
proof (induction calls arbitrary: t)
  case Nil
  then show ?case by simp
next
  case (Cons c cs)
  have "distinct (stored (tfa_call_effect lib c t) userId) \<and>
        sha256_hex lib (code @ userId) \<in> set (stored (tfa_call_effect lib c t) userId)"
    using Cons.prems by (intro stored_effect_keeps) simp_all
  then show ?case
    using Cons.IH [of "tfa_call_effect lib c t"] Cons.prems(1) by simp
qed

lemma stored_after_generate:
  "generateBackupCodes lib rnd userId count t0 = (codes, t1) \<Longrightarrow>
   stored t1 userId = map (\<lambda>c. sha256_hex lib (c @ userId)) codes"
  by (auto simp: generateBackupCodes_eq stored_def)

lemma stored_after_verify:
  "sha256_hex lib (code @ userId) \<in> set (stored t userId) \<Longrightarrow>
   stored (snd (verifyBackupCode lib code userId t)) userId =
     remove1 (sha256_hex lib (code @ userId)) (stored t userId)"
  by (simp add: verifyBackupCode_eq stored_def)

text \<open>
  When the hashes stored by \<^verbatim>\<open>generateBackupCodes\<close> are pairwise distinct, each code is
  single-use: \<^verbatim>\<open>verifyBackupCode\<close> with one of the codes returns true at its first use,
  whatever unrelated calls came before, and removes the hash; every later call with the
  same code returns false, whatever calls come in between, as long as no new set is
  generated for the account.
\<close>

lemma backup_code_single_use:
  assumes gen: "generateBackupCodes lib rnd userId count t0 = (codes, t1)"
    and code: "code \<in> set codes"
    and dist: "distinct (map (\<lambda>c. sha256_hex lib (c @ userId)) codes)"
    and before: "\<forall>call \<in> set before. \<not> spends lib code userId call"
    and first: "verifyBackupCode lib code userId (tfa_calls lib before t1) = (ok, t2)"
    and later: "\<forall>call \<in> set later. \<not> regenerates userId call"
  shows "ok \<and> sha256_hex lib (code @ userId) \<notin> set (stored t2 userId) \<and>
         \<not> fst (verifyBackupCode lib code userId (tfa_calls lib later t2))"
proof -
  let ?h = "sha256_hex lib (code @ userId)"
  let ?t = "tfa_calls lib before t1"
  have s1: "stored t1 userId = map (\<lambda>c. sha256_hex lib (c @ userId)) codes"
    using gen by (rule stored_after_generate)
  have "distinct (stored t1 userId)" "?h \<in> set (stored t1 userId)"
    using dist code by (simp_all add: s1)
  then have inv: "distinct (stored ?t userId) \<and> ?h \<in> set (stored ?t userId)"
    using before by (intro stored_calls_keep) simp_all
  then have ok: "ok" and t2: "t2 = snd (verifyBackupCode lib code userId ?t)"
    using first by (auto simp: verifyBackupCode_eq)
  have "stored t2 userId = remove1 ?h (stored ?t userId)"
    unfolding t2 using inv by (simp add: stored_after_verify)
  then have gone: "?h \<notin> set (stored t2 userId)"
    using inv by simp
  have "set (stored (tfa_calls lib later t2) userId) \<subseteq> set (stored t2 userId)"
    using later by (rule stored_calls_subset)
  then have "?h \<notin> set (stored (tfa_calls lib later t2) userId)"
    using gone by blast
  then have "\<not> fst (verifyBackupCode lib code userId (tfa_calls lib later t2))"
    by (simp add: verifyBackupCode_eq)
  with ok gone show ?thesis by simp
qed

text \<open>
  A stand-in library for concrete runs: the hash and the cipher copy their input, the
  secret drawn is always the same.
\<close>

definition demo_library :: tfa_library where
  "demo_library =
     \<lparr>sha256 = map (\<lambda>c. of_nat (of_char c)),
      aes_256_cbc = (\<lambda>key iv s. map (\<lambda>c. of_nat (of_char c)) s),
      speakeasy_generateSecret = (\<lambda>n name iss.
         \<lparr>base32 = ''JBSWY3DPEHPK3PXP'',
          otpauth_url = ''otpauth://totp/'' @ name @ ''?secret=JBSWY3DPEHPK3PXP''\<rparr>),
      qrcode_toDataURL = (\<lambda>url. Some (''data:image/png;'' @ url))\<rparr>"

definition demo_random :: "nat \<Rightarrow> byte list" where
  "demo_random k = [of_nat k, of_nat (k + 160)]"

definition demo_tfa :: two_factor_auth where
  "demo_tfa = \<lparr>secretEncryptionKey = ''k'', issuer = ''TRACAS Admin'', backupCodes = Map.empty\<rparr>"

lemma demo_codes:
  "map (newBackupCode demo_random) [0..<2] = [''00a0-01a1-02a2'', ''03a3-04a4-05a5'']"
  by code_simp


lemma backup_code_single_use_witness:
  "fst (verifyBackupCode demo_library ''00a0-01a1-02a2'' ''u1''
          (tfa_calls demo_library [CallVerifyBackupCode ''03a3-04a4-05a5'' ''u1'']
             (snd (generateBackupCodes demo_library demo_random ''u1'' 2 demo_tfa)))) \<and>
   \<not> fst (verifyBackupCode demo_library ''00a0-01a1-02a2'' ''u1''
          (tfa_calls demo_library
             [CallVerifyBackupCode ''00a0-01a1-02a2'' ''u1'', CallDisableTwoFactor ''u2'']
             (snd (verifyBackupCode demo_library ''00a0-01a1-02a2'' ''u1''
                (tfa_calls demo_library [CallVerifyBackupCode ''03a3-04a4-05a5'' ''u1'']
                   (snd (generateBackupCodes demo_library demo_random ''u1'' 2 demo_tfa)))))))"
proof -
  let ?g = "generateBackupCodes demo_library demo_random ''u1'' 2 demo_tfa"
  let ?before = "[CallVerifyBackupCode ''03a3-04a4-05a5'' ''u1'']"
  let ?later = "[CallVerifyBackupCode ''00a0-01a1-02a2'' ''u1'', CallDisableTwoFactor ''u2'']"
  let ?v = "verifyBackupCode demo_library ''00a0-01a1-02a2'' ''u1'' (tfa_calls demo_library ?before (snd ?g))"
  have codes: "fst ?g = [''00a0-01a1-02a2'', ''03a3-04a4-05a5'']"
    by (simp add: generateBackupCodes_eq demo_codes)
  have gen: "?g = (fst ?g, snd ?g)"
    by simp
  have mem: "''00a0-01a1-02a2'' \<in> set (fst ?g)"
    by (simp add: codes)
  have dist: "distinct (map (\<lambda>c. sha256_hex demo_library (c @ ''u1'')) (fst ?g))"
    unfolding codes by code_simp
  have before: "\<forall>call \<in> set ?before. \<not> spends demo_library ''00a0-01a1-02a2'' ''u1'' call"
    by code_simp
  have first: "?v = (fst ?v, snd ?v)"
    by simp
  have later: "\<forall>call \<in> set ?later. \<not> regenerates ''u1'' call"
    by simp
  from backup_code_single_use [OF gen mem dist before first later]
  show ?thesis by simp
qed

text \<open>
  Claim C5 fails on the code. The comment in \<^verbatim>\<open>generateBackupCodes\<close> promises unique
  codes, but nothing compares a new code with those already drawn: when
  \<^verbatim>\<open>crypto.randomBytes\<close> returns the same six bytes for two codes of a set (here all
  zero), the hash is stored twice, \<^verbatim>\<open>splice\<close> removes one occurrence, and the second
  verification of the same code returns true as well. This holds for every hash function,
  account and earlier state.
\<close>

theorem backup_code_reused_after_repeated_draw:
  "fst (generateBackupCodes lib (\<lambda>k. [0, 0]) userId 2 t) = [''0000-0000-0000'', ''0000-0000-0000''] \<and>
   fst (verifyBackupCode lib ''0000-0000-0000'' userId
          (snd (generateBackupCodes lib (\<lambda>k. [0, 0]) userId 2 t))) \<and>
   fst (verifyBackupCode lib ''0000-0000-0000'' userId
          (snd (verifyBackupCode lib ''0000-0000-0000'' userId
             (snd (generateBackupCodes lib (\<lambda>k. [0, 0]) userId 2 t)))))"
proof -
  have codes: "map (newBackupCode (\<lambda>k. [0, 0])) [0..<2] = [''0000-0000-0000'', ''0000-0000-0000'']"
    by code_simp
  show ?thesis
    by (simp add: generateBackupCodes_eq codes verifyBackupCode_eq stored_def)
qed

text \<open>
  Claim C9, as amended. \<^verbatim>\<open>generateSecret\<close> draws a secret, renders its provisioning URI
  as a QR code and returns the secret in base32 plaintext together with the QR code, the
  encrypted secret and ten backup codes. It stores nothing about the secret: the state
  after the call is the one \<^verbatim>\<open>generateBackupCodes\<close> leaves, and it is the same (or
  untouched, when rendering fails) whatever secret is drawn.
\<close>

theorem generateSecret_returns_plaintext:
  assumes secret: "secret = speakeasy_generateSecret lib 20
                     (issuer t @ '':'' @ template (js_or (user_email user) (user_username user)))
                     (issuer t)"
    and qr: "qrcode_toDataURL lib (otpauth_url secret) = Some qr"
  shows "fst (generateSecret lib iv rnd user t) =
           Inr \<lparr>setup_secret = base32 secret, setup_qrCode = qr,
                setup_encryptedSecret = encryptSecret lib iv t (base32 secret) (user_id user),
                setup_backupCodes = fst (generateBackupCodes lib rnd (user_id user) 10 t)\<rparr> \<and>
         snd (generateSecret lib iv rnd user t) =
           snd (generateBackupCodes lib rnd (user_id user) 10 t) \<and>
         snd (generateSecret (lib\<lparr>speakeasy_generateSecret := other\<rparr>) iv rnd user t) \<in>
           {t, snd (generateSecret lib iv rnd user t)}"
  using assms
  by (auto simp: generateSecret_def Let_def generateBackupCodes_eq sha256_hex_def
           split: option.splits prod.splits)

theorem generateSecret_returns_plaintext_witness:
  "map_sum id setup_secret
     (fst (generateSecret demo_library (replicate 16 0) demo_random
        \<lparr>user_id = ''u1'', user_email = Some ''a@b.c'', user_username = None\<rparr> demo_tfa)) =
     Inr (base32 (speakeasy_generateSecret demo_library 20 ''TRACAS Admin:a@b.c'' ''TRACAS Admin''))"
  using generateSecret_returns_plaintext [of _ demo_library demo_tfa
      "\<lparr>user_id = ''u1'', user_email = Some ''a@b.c'', user_username = None\<rparr>"
      "''data:image/png;otpauth://totp/TRACAS Admin:a@b.c?secret=JBSWY3DPEHPK3PXP''"
      "replicate 16 0" demo_random "speakeasy_generateSecret demo_library", OF refl]
  by (simp add: demo_library_def demo_tfa_def template_def js_or_def truthy_def)

text \<open>
  Claim C9 as stated fails: the object returned to the caller carries the plaintext
  secret in its field \<^verbatim>\<open>secret\<close>, here \<^verbatim>\<open>JBSWY3DPEHPK3PXP\<close>.
\<close>

theorem generateSecret_only_encrypted_counterexample:
  "map_sum id setup_secret
     (fst (generateSecret demo_library (replicate 16 0) demo_random
        \<lparr>user_id = ''u1'', user_email = Some ''a@b.c'', user_username = None\<rparr> demo_tfa)) =
     Inr ''JBSWY3DPEHPK3PXP'' \<and>
   base32 (speakeasy_generateSecret demo_library 20 ''TRACAS Admin:a@b.c'' ''TRACAS Admin'') =
     ''JBSWY3DPEHPK3PXP''"
  by (simp add: generateSecret_def demo_library_def demo_tfa_def template_def js_or_def truthy_def
        Let_def split: prod.splits)


section \<open>Request inspector (class WAF)\<close>

subsection \<open>Signatures\<close>

text \<open>
  The attack signatures are JavaScript regular expressions with the flag \<^verbatim>\<open>i\<close>, built from
  literal characters, \<^verbatim>\<open>.\<close>, \<^verbatim>\<open>\s\<close>, negated one-character classes, \<^verbatim>\<open>*\<close>, groups and
  alternatives. They have no anchors, so \<^verbatim>\<open>pattern.test(s)\<close> holds when some substring of
  \<open>s\<close> matches. \<open>test\<close> decides this with derivatives: \<open>deriv c r\<close> matches what \<open>r\<close>
  matches after a first character \<open>c\<close>.
\<close>

datatype rx =
    Chr char
  | Dot
  | NotChr char
  | Space
  | Eps
  | Nul
  | Seq rx rx
  | Alt rx rx
  | Star rx

definition lower :: "char \<Rightarrow> char" where
  "lower c =
     (case map_of (zip ''ABCDEFGHIJKLMNOPQRSTUVWXYZ'' ''abcdefghijklmnopqrstuvwxyz'') c of
        Some l \<Rightarrow> l
      | None \<Rightarrow> c)"

definition line_terminators :: "char list" where
  "line_terminators = [CHR 0x0A, CHR 0x0D]"

definition white_space :: "char list" where
  "white_space = [CHR 0x09, CHR 0x0A, CHR 0x0B, CHR 0x0C, CHR 0x0D, CHR 0x20, CHR 0xA0]"

fun nullable :: "rx \<Rightarrow> bool" where
  "nullable (Chr a) = False"
| "nullable Dot = False"
| "nullable (NotChr a) = False"
| "nullable Space = False"
| "nullable Eps = True"
| "nullable Nul = False"
| "nullable (Seq r s) = (nullable r \<and> nullable s)"
| "nullable (Alt r s) = (nullable r \<or> nullable s)"
| "nullable (Star r) = True"

definition step :: "bool \<Rightarrow> rx" where
  "step b = (if b then Eps else Nul)"

fun seq :: "rx \<Rightarrow> rx \<Rightarrow> rx" where
  "seq Nul s = Nul"
| "seq Eps s = s"
| "seq r s = Seq r s"

fun alt :: "rx \<Rightarrow> rx \<Rightarrow> rx" where
  "alt Nul s = s"
| "alt r Nul = r"
| "alt r s = Alt r s"

fun deriv :: "char \<Rightarrow> rx \<Rightarrow> rx" where
  "deriv c (Chr a) = step (lower c = lower a)"
| "deriv c Dot = step (c \<notin> set line_terminators)"
| "deriv c (NotChr a) = step (lower c \<noteq> lower a)"
| "deriv c Space = step (c \<in> set white_space)"
| "deriv c Eps = Nul"
| "deriv c Nul = Nul"
| "deriv c (Seq r s) =
     (if nullable r then alt (seq (deriv c r) s) (deriv c s) else seq (deriv c r) s)"
| "deriv c (Alt r s) = alt (deriv c r) (deriv c s)"
| "deriv c (Star r) = seq (deriv c r) (Star r)"

fun match_prefix :: "rx \<Rightarrow> string \<Rightarrow> bool" where
  "match_prefix r [] = nullable r"
| "match_prefix r (c # cs) = (nullable r \<or> (r \<noteq> Nul \<and> match_prefix (deriv c r) cs))"

fun test :: "rx \<Rightarrow> string \<Rightarrow> bool" where
  "test r [] = nullable r"
| "test r (c # cs) = (match_prefix r (c # cs) \<or> test r cs)"

text \<open>
  What a signature matches, as a set of strings, and the proof that \<open>test\<close> decides
  whether some substring is in it.
\<close>

inductive_set star :: "string set \<Rightarrow> string set" for A :: "string set" where
  star_empty: "[] \<in> star A"
| star_more: "u \<in> A \<Longrightarrow> v \<in> star A \<Longrightarrow> u @ v \<in> star A"

fun lang :: "rx \<Rightarrow> string set" where
  "lang (Chr a) = {[c] | c. lower c = lower a}"
| "lang Dot = {[c] | c. c \<notin> set line_terminators}"
| "lang (NotChr a) = {[c] | c. lower c \<noteq> lower a}"
| "lang Space = {[c] | c. c \<in> set white_space}"
| "lang Eps = {[]}"
| "lang Nul = {}"
| "lang (Seq r s) = {u @ v | u v. u \<in> lang r \<and> v \<in> lang s}"
| "lang (Alt r s) = lang r \<union> lang s"
| "lang (Star r) = star (lang r)"

lemma nullable_lang: "nullable r \<longleftrightarrow> [] \<in> lang r"
  by (induction r) (auto intro: star_empty)

lemma lang_step: "lang (step b) = (if b then {[]} else {})"
  by (simp add: step_def)

lemma lang_seq: "lang (seq r s) = lang (Seq r s)"
  by (cases r) auto

lemma lang_alt: "lang (alt r s) = lang (Alt r s)"
  by (cases r; cases s) auto

lemma star_cons:
  "c # w \<in> star A \<longleftrightarrow> (\<exists>u v. w = u @ v \<and> c # u \<in> A \<and> v \<in> star A)"
proof
  assume "c # w \<in> star A"
  then show "\<exists>u v. w = u @ v \<and> c # u \<in> A \<and> v \<in> star A"
  proof (induction "c # w" arbitrary: w rule: star.induct)
    case (star_more u v)
    show ?case
    proof (cases u)
      case Nil
      then show ?thesis using star_more by simp
    next
      case (Cons a u')
      then have "w = u' @ v" "c # u' \<in> A"
        using star_more.hyps(1,4) by simp_all
      then show ?thesis using star_more.hyps(2) by blast
    qed
  qed
next
  assume "\<exists>u v. w = u @ v \<and> c # u \<in> A \<and> v \<in> star A"
  then obtain u v where "w = u @ v" "c # u \<in> A" "v \<in> star A"
    by blast
  then show "c # w \<in> star A"
    using star_more [of "c # u" A v] by simp
qed

lemma deriv_lang: "w \<in> lang (deriv c r) \<longleftrightarrow> c # w \<in> lang r"
proof (induction r arbitrary: w)
  case (Seq r s)
  have "c # w \<in> lang (Seq r s) \<longleftrightarrow>
          (\<exists>u v. w = u @ v \<and> c # u \<in> lang r \<and> v \<in> lang s) \<or> ([] \<in> lang r \<and> c # w \<in> lang s)"
    by (auto simp: Cons_eq_append_conv)
  then show ?case
    using Seq by (auto simp: lang_alt lang_seq nullable_lang)
next
  case (Star r)
  then show ?case
    by (auto simp: lang_seq star_cons)
qed (auto simp: lang_step lang_alt)

lemma match_prefix_lang: "match_prefix r s \<longleftrightarrow> (\<exists>u v. s = u @ v \<and> u \<in> lang r)"
proof (induction s arbitrary: r)
  case Nil
  then show ?case by (simp add: nullable_lang)
next
  case (Cons c cs)
  have "(\<exists>u v. c # cs = u @ v \<and> u \<in> lang r) \<longleftrightarrow>
          [] \<in> lang r \<or> (\<exists>u v. cs = u @ v \<and> c # u \<in> lang r)"
    by (auto simp: Cons_eq_append_conv)
  moreover have "r = Nul \<Longrightarrow> \<not> (\<exists>u v. cs = u @ v \<and> c # u \<in> lang r)"
    by simp
  ultimately show ?case
    using Cons [of "deriv c r"] by (auto simp: nullable_lang deriv_lang)
qed

lemma test_lang: "test r s \<longleftrightarrow> (\<exists>u v w. s = u @ v @ w \<and> v \<in> lang r)"
proof (induction s)
  case Nil
  then show ?case by (simp add: nullable_lang)
next
  case (Cons c cs)
  have "(\<exists>u v w. c # cs = u @ v @ w \<and> v \<in> lang r) \<longleftrightarrow>
          (\<exists>v w. c # cs = v @ w \<and> v \<in> lang r) \<or> (\<exists>u v w. cs = u @ v @ w \<and> v \<in> lang r)"
  proof
    assume "\<exists>u v w. c # cs = u @ v @ w \<and> v \<in> lang r"
    then obtain u v w where s: "c # cs = u @ v @ w" and v: "v \<in> lang r"
      by blast
    show "(\<exists>v w. c # cs = v @ w \<and> v \<in> lang r) \<or> (\<exists>u v w. cs = u @ v @ w \<and> v \<in> lang r)"
    proof (cases u)
      case Nil
      then show ?thesis using s v by auto
    next
      case (Cons a u')
      then have "cs = u' @ v @ w" using s by simp
      then show ?thesis using v by blast
    qed
  next
    assume "(\<exists>v w. c # cs = v @ w \<and> v \<in> lang r) \<or> (\<exists>u v w. cs = u @ v @ w \<and> v \<in> lang r)"
    then show "\<exists>u v w. c # cs = u @ v @ w \<and> v \<in> lang r"
    proof
      assume "\<exists>v w. c # cs = v @ w \<and> v \<in> lang r"
      then obtain v w where "c # cs = [] @ v @ w" "v \<in> lang r" by auto
      then show ?thesis by blast
    next
      assume "\<exists>u v w. cs = u @ v @ w \<and> v \<in> lang r"
      then obtain u v w where "c # cs = (c # u) @ v @ w" "v \<in> lang r" by auto
      then show ?thesis by blast
    qed
  qed
  then show ?case
    using Cons match_prefix_lang [of r "c # cs"] by auto
qed


text \<open>
  The signature tables of the constructor, in the order of the source. \<open>lit\<close> is a run
  of literal characters, \<open>seqs\<close> a concatenation and \<open>alts\<close> a group of alternatives.
\<close>

definition lit :: "string \<Rightarrow> rx" where
  "lit s = foldr (\<lambda>c r. Seq (Chr c) r) s Eps"

definition seqs :: "rx list \<Rightarrow> rx" where
  "seqs rs = foldr Seq rs Eps"

definition alts :: "rx list \<Rightarrow> rx" where
  "alts rs = foldr Alt rs Nul"


definition sqlInjection_patterns :: "rx list" where
  "sqlInjection_patterns =
    [seqs [Chr squote, Star Dot, lit ''--''],
     seqs [lit ''union'', Star Dot, lit ''select''],
     seqs [lit ''exec'', Star Dot, lit ''sp_''],
     seqs [lit ''insert'', Star Dot, lit ''into'', Star Dot, lit ''values''],
     seqs [lit ''select'', Star Dot, lit ''from''],
     seqs [lit ''delete'', Star Dot, lit ''from''],
     seqs [lit ''drop'', Star Dot, lit ''table''],
     seqs [lit ''waitfor'', Star Dot, lit ''delay''],
     seqs [lit '';'', Star Dot, lit '';''],
     seqs [Chr squote, Star Dot, lit ''OR'', Star Dot, Chr squote, lit ''--''],
     seqs [Chr squote, Star Dot, lit ''OR'', Star Dot, lit ''1=1--'']]"

definition xss_patterns :: "rx list" where
  "xss_patterns =
    [seqs [lit ''<script'', Star (NotChr (CHR ''>'')), lit ''>''],
     seqs [lit ''javascript:'', Star (NotChr dquote)],
     seqs [lit ''onerror='', Star (NotChr dquote)],
     seqs [lit ''onload='', Star (NotChr dquote)],
     seqs [lit ''onclick='', Star (NotChr dquote)],
     seqs [lit ''eval('', Star (NotChr (CHR '')'')), lit '')''],
     seqs [lit ''alert('', Star (NotChr (CHR '')'')), lit '')''],
     lit ''document.cookie'',
     lit ''document.location'',
     lit ''document.write'']"

definition shells :: rx where
  "shells = alts [lit ''cmd'', lit ''command'', lit ''powershell'', lit ''bash'', lit ''sh'',
                  lit ''ksh'', lit ''csh'']"

definition commandInjection_patterns :: "rx list" where
  "commandInjection_patterns =
    [seqs [lit ''|'', Star Space, shells],
     seqs [lit '';'', Star Space, shells],
     seqs [Chr backtick, Star Dot, Chr backtick],
     seqs [lit ''system('', Star Dot, lit '')''],
     seqs [lit ''exec('', Star Dot, lit '')''],
     seqs [lit ''$('', Star (NotChr (CHR '')'')), lit '')''],
     seqs [lit ''|'', Star Space,
           alts [lit ''ls'', lit ''dir'', lit ''cat'', lit ''ps'', lit ''netstat'']]]"

definition pathTraversal_patterns :: "rx list" where
  "pathTraversal_patterns =
    [lit ''../../../'',
     seqs [lit ''..'', Chr backslash, lit ''..'', Chr backslash, lit ''..//''],
     lit ''etc/passwd'',
     lit ''etc/shadow'',
     lit ''/proc/self/environ'',
     lit ''/var/log/'',
     lit ''/windows/system32/'',
     seqs [lit ''c:'', Chr backslash, lit ''windows'', Chr backslash, lit ''system32'']]"

definition filenames_patterns :: "rx list" where
  "filenames_patterns =
    [lit ''.htaccess'',
     lit ''.htpasswd'',
     lit ''config.php'',
     lit ''wp-config.php'',
     lit ''config.ini'',
     lit ''.env'',
     lit ''.git/'',
     lit ''.svn/'']"


subsection \<open>Payloads\<close>

text \<open>
  A request body is a parsed JSON value, or absent. \<^verbatim>\<open>analyzePayload\<close> scans the text of
  \<^verbatim>\<open>JSON.stringify(payload)\<close> when the payload is an object or an array, and the payload
  itself when it is a string. A number is an integer that JavaScript holds exactly and
  prints in full, one of magnitude up to \<^verbatim>\<open>2^53\<close>; fractions and larger numbers are outside
  the model. An object is the list of its properties in the order they were set; setting
  a key again replaces the value and keeps the place. JavaScript enumerates the keys that
  are array indices first, in ascending order, then the others in the order they were set.
  The category given to \<^verbatim>\<open>analyzePayload\<close> is one of the five keys of the signature table;
  the module passes no other.
\<close>

datatype json =
    JNull
  | JBool bool
  | JNum int
  | JStr string
  | JArr "json list"
  | JObj "(string \<times> json) list"

fun digits :: "nat \<Rightarrow> string" where
  "digits n = (if n < 10 then [''0123456789'' ! n] else digits (n div 10) @ [''0123456789'' ! (n mod 10)])"

definition show_int :: "int \<Rightarrow> string" where
  "show_int i = (if i < 0 then ''-'' @ digits (nat (- i)) else digits (nat i))"

definition escape_char :: "char \<Rightarrow> string" where
  "escape_char c =
    (if c = dquote then [backslash, dquote]
     else if c = backslash then [backslash, backslash]
     else if c = CHR 0x08 then [backslash, CHR ''b'']
     else if c = CHR 0x09 then [backslash, CHR ''t'']
     else if c = CHR 0x0A then [backslash, CHR ''n'']
     else if c = CHR 0x0C then [backslash, CHR ''f'']
     else if c = CHR 0x0D then [backslash, CHR ''r'']
     else if (of_char c :: nat) < 0x20
       then [backslash] @ ''u00'' @ [hexDigit (of_char c div 16), hexDigit (of_char c mod 16)]
     else [c])"

definition quote :: "string \<Rightarrow> string" where
  "quote s = [dquote] @ concat (map escape_char s) @ [dquote]"

fun join :: "string \<Rightarrow> string list \<Rightarrow> string" where
  "join sep [] = []"
| "join sep [x] = x"
| "join sep (x # y # ys) = x @ sep @ join sep (y # ys)"

definition decimal_digit :: "char \<Rightarrow> bool" where
  "decimal_digit c = (c \<in> set ''0123456789'')"

definition decimal_value :: "string \<Rightarrow> int" where
  "decimal_value k = fold (\<lambda>c n. 10 * n + (of_char c - 48)) k 0"

definition array_index :: "string \<Rightarrow> int option" where
  "array_index k =
    (if k = [] \<or> \<not> list_all decimal_digit k then None
     else if hd k = CHR ''0'' \<and> k \<noteq> ''0'' then None
     else if decimal_value k < 4294967295 then Some (decimal_value k)
     else None)"

definition set_property :: "string \<times> 'a \<Rightarrow> (string \<times> 'a) list \<Rightarrow> (string \<times> 'a) list" where
  "set_property kv kvs = AList.update (fst kv) (snd kv) kvs"

definition own_properties :: "(string \<times> 'a) list \<Rightarrow> (string \<times> 'a) list" where
  "own_properties kvs =
    (let props = fold set_property kvs []
     in sort_key (\<lambda>kv. case array_index (fst kv) of Some n \<Rightarrow> n | None \<Rightarrow> 0)
          (filter (\<lambda>kv. array_index (fst kv) \<noteq> None) props) @
        filter (\<lambda>kv. array_index (fst kv) = None) props)"

fun stringify :: "json \<Rightarrow> string" where
  "stringify JNull = ''null''"
| "stringify (JBool b) = (if b then ''true'' else ''false'')"
| "stringify (JNum n) = show_int n"
| "stringify (JStr s) = quote s"
| "stringify (JArr xs) = ''['' @ join '','' (map stringify xs) @ '']''"
| "stringify (JObj kvs) =
     ''{'' @ join '',''
              (map (\<lambda>kv. quote (fst kv) @ '':'' @ snd kv)
                 (own_properties (map (\<lambda>kv. (fst kv, stringify (snd kv))) kvs))) @ ''}''"


definition falsy :: "json option \<Rightarrow> bool" where
  "falsy payload =
    (case payload of
       None \<Rightarrow> True
     | Some JNull \<Rightarrow> True
     | Some (JBool b) \<Rightarrow> \<not> b
     | Some (JNum n) \<Rightarrow> n = 0
     | Some (JStr s) \<Rightarrow> s = []
     | Some (JArr xs) \<Rightarrow> False
     | Some (JObj kvs) \<Rightarrow> False)"

definition payloadStr :: "json \<Rightarrow> string" where
  "payloadStr payload =
    (case payload of
       JStr s \<Rightarrow> s
     | JNum n \<Rightarrow> show_int n
     | JBool b \<Rightarrow> (if b then ''true'' else ''false'')
     | JNull \<Rightarrow> stringify JNull
     | JArr xs \<Rightarrow> stringify (JArr xs)
     | JObj kvs \<Rightarrow> stringify (JObj kvs))"

definition attackPatterns :: "string \<Rightarrow> rx list option" where
  "attackPatterns =
     map_of [(''sqlInjection'', sqlInjection_patterns),
             (''xss'', xss_patterns),
             (''commandInjection'', commandInjection_patterns),
             (''pathTraversal'', pathTraversal_patterns),
             (''filenames'', filenames_patterns)]"

record analysis =
  detected :: bool
  score :: nat
  matches :: "rx list"

definition analyzePayload :: "json option \<Rightarrow> string \<Rightarrow> analysis" where
  "analyzePayload payload category =
    (case (if falsy payload then None else payload, attackPatterns category) of
       (Some p, Some patterns) \<Rightarrow>
         let (score, matches) =
               fold (\<lambda>pattern (score, matches).
                       if test pattern (payloadStr p)
                       then (score + 1, matches @ [pattern])
                       else (score, matches))
                 patterns (0, [])
         in \<lparr>detected = score > 0, score = score, matches = matches\<rparr>
     | _ \<Rightarrow> \<lparr>detected = False, score = 0, matches = []\<rparr>)"

datatype waf_error = TypeError

datatype verdict =
    NotBlocked
  | Blocked string "string option" "rx list option"
  | Throws waf_error

subsection \<open>State and operations\<close>

text \<open>
  The fields of the singleton \<^verbatim>\<open>WAF\<close> instance, and with them \<^verbatim>\<open>blockList\<close>, the set of
  the rate limiter module that \<^verbatim>\<open>updateBlockList\<close> refills. The two sets are JavaScript
  \<^verbatim>\<open>Set\<close>s: lists without repetition, in insertion order. A request carries the two clock
  readings its inspection makes: \<open>now_track\<close> in \<^verbatim>\<open>trackRequest\<close> and \<open>now_check\<close> in
  \<^verbatim>\<open>checkDDoS\<close>, in milliseconds. \<^verbatim>\<open>geoip.lookup\<close> is a parameter: the country of an
  address, if the lookup finds the address and names a country. The \<^verbatim>\<open>details\<close> of a
  verdict and the log entries are left out.

  \<^verbatim>\<open>requestCounts\<close> is a plain object. Looking up a key that names a member of
  \<^verbatim>\<open>Object.prototype\<close> finds that member when the object has no entry of its own under
  the key: the lookup is truthy, but the value has no \<^verbatim>\<open>timestamps\<close>, so that
  \<^verbatim>\<open>trackRequest\<close> and \<^verbatim>\<open>checkDDoS\<close> throw a \<^verbatim>\<open>TypeError\<close>, while the counter that
  \<^verbatim>\<open>recordBadRequest\<close> increments is a property of the inherited member, outside the
  state of the WAF. An inspection ends with the object it returns, or with the error
  thrown.
\<close>

record active_rules =
  sqlInjection :: bool
  xss :: bool
  commandInjection :: bool
  path_traversal :: bool
  ddos :: bool
  geoblocking :: bool

record waf_thresholds =
  requestsPerMinute :: nat
  requestsPerSecond :: nat
  suspiciousPatternScore :: nat
  badRequestRatio :: rat

record request_data =
  timestamps :: "int list"
  badRequests :: nat
  totalRequests :: nat

record waf =
  isEnabled :: bool
  activeRules :: active_rules
  requestCounts :: "string \<rightharpoonup> request_data"
  thresholds :: waf_thresholds
  blockedIPs :: "string list"
  allowedCountries :: "string list"
  blockList :: "string list"

record waf_request =
  req_ip :: string
  req_http_method :: string
  req_url :: string
  req_body :: "json option"
  now_track :: int
  now_check :: int

definition set_add :: "'a \<Rightarrow> 'a list \<Rightarrow> 'a list" where
  "set_add x xs = (if x \<in> set xs then xs else xs @ [x])"

definition split_commas :: "string \<Rightarrow> string list" where
  "split_commas s =
     (let (done, cur) = fold (\<lambda>c (done, cur). if c = CHR '','' then (done @ [cur], []) else (done, cur @ [c]))
                          s ([], [])
      in done @ [cur])"

definition new_WAF :: "bool \<Rightarrow> string option \<Rightarrow> waf" where
  "new_WAF isLocal env_ALLOWED_COUNTRIES =
    \<lparr>isEnabled = (if isLocal then False else True),
     activeRules = \<lparr>sqlInjection = True, xss = True, commandInjection = True,
                    path_traversal = True, ddos = True, geoblocking = \<not> isLocal\<rparr>,
     requestCounts = Map.empty,
     thresholds = \<lparr>requestsPerMinute = 100, requestsPerSecond = 10,
                   suspiciousPatternScore = 5, badRequestRatio = 1 / 2\<rparr>,
     blockedIPs = [],
     allowedCountries =
       split_commas (case env_ALLOWED_COUNTRIES of
                       None \<Rightarrow> ''ID,SG,MY,US''
                     | Some s \<Rightarrow> if s = [] then ''ID,SG,MY,US'' else s),
     blockList = []\<rparr>"

definition updateBlockList :: "string list \<Rightarrow> waf \<Rightarrow> waf" where
  "updateBlockList ipList w = w\<lparr>blockList := fold set_add ipList []\<rparr>"

definition ipBlocker :: "string \<Rightarrow> waf \<Rightarrow> outcome" where
  "ipBlocker clientIp w =
    (if clientIp \<in> set (blockList w)
     then Respond 403 ''Akses dari IP Anda diblokir. Silakan hubungi administrator.''
     else Next)"

definition blockIP :: "string \<Rightarrow> string \<Rightarrow> json \<Rightarrow> waf \<Rightarrow> waf" where
  "blockIP clientIp reason details w =
    (if clientIp = ''127.0.0.1'' \<or> clientIp = ''::1'' then w
     else
       let w1 = w\<lparr>blockedIPs := set_add clientIp (blockedIPs w)\<rparr>
       in updateBlockList (blockedIPs w1) w1)"

definition recordBadRequest :: "string \<Rightarrow> waf \<Rightarrow> waf" where
  "recordBadRequest clientIp w =
    (case requestCounts w clientIp of
       None \<Rightarrow> w
     | Some d \<Rightarrow>
         let d1 = d\<lparr>badRequests := badRequests d + 1\<rparr>;
             w1 = w\<lparr>requestCounts := (requestCounts w)(clientIp \<mapsto> d1)\<rparr>
         in if totalRequests d1 > 10 \<and>
               of_nat (badRequests d1) / of_nat (totalRequests d1) > badRequestRatio (thresholds w1)
            then blockIP clientIp ''High bad request ratio''
                   (JObj [(''badRequests'', JNum (int (badRequests d1))),
                          (''totalRequests'', JNum (int (totalRequests d1)))]) w1
            else w1)"

definition logAttack :: "string \<Rightarrow> string \<Rightarrow> waf \<Rightarrow> waf" where
  "logAttack clientIp attackType w = recordBadRequest clientIp w"

definition Object_prototype :: "string list" where
  "Object_prototype =
     [''constructor'', ''__defineGetter__'', ''__defineSetter__'', ''hasOwnProperty'',
      ''__lookupGetter__'', ''__lookupSetter__'', ''isPrototypeOf'', ''propertyIsEnumerable'',
      ''toString'', ''valueOf'', ''__proto__'', ''toLocaleString'']"

definition trackRequest :: "string \<Rightarrow> int \<Rightarrow> waf \<Rightarrow> waf_error + waf" where
  "trackRequest clientIp now w =
    (case requestCounts w clientIp of
       None \<Rightarrow>
         if clientIp \<in> set Object_prototype then Inl TypeError
         else
           Inr (w\<lparr>requestCounts := (requestCounts w)(clientIp \<mapsto>
                  \<lparr>timestamps = [now], badRequests = 0, totalRequests = 1\<rparr>)\<rparr>)
     | Some d \<Rightarrow>
         Inr (w\<lparr>requestCounts := (requestCounts w)(clientIp \<mapsto>
                d\<lparr>timestamps := timestamps d @ [now], totalRequests := totalRequests d + 1\<rparr>)\<rparr>))"

definition checkDDoS :: "string \<Rightarrow> int \<Rightarrow> waf \<Rightarrow> verdict \<times> waf" where
  "checkDDoS clientIp now w =
    (case requestCounts w clientIp of
       None \<Rightarrow> (if clientIp \<in> set Object_prototype then Throws TypeError else NotBlocked, w)
     | Some requestData \<Rightarrow>
         let secondWindow = now - 1000;
             minuteWindow = now - 60000;
             requestsLastSecond = length (filter (\<lambda>time. time > secondWindow) (timestamps requestData));
             requestsLastMinute = length (filter (\<lambda>time. time > minuteWindow) (timestamps requestData))
         in if requestsLastSecond > requestsPerSecond (thresholds w) \<or>
               requestsLastMinute > requestsPerMinute (thresholds w)
            then (Blocked ''Rate limit terlampaui, potensi DDoS'' (Some ''DDOS_PROTECTION'') None,
                  blockIP clientIp ''DDoS''
                    (JObj [(''requestsPerSecond'', JNum (int requestsLastSecond)),
                           (''requestsPerMinute'', JNum (int requestsLastMinute))]) w)
            else (NotBlocked, w))"

definition startsWith :: "string \<Rightarrow> string \<Rightarrow> bool" where
  "startsWith s p = (take (length p) s = p)"

record waf_env =
  geoip_lookup :: "string \<Rightarrow> string option"

definition checkGeolocation :: "waf_env \<Rightarrow> string \<Rightarrow> waf \<Rightarrow> verdict \<times> waf" where
  "checkGeolocation env clientIp w =
    (if clientIp = ''127.0.0.1'' \<or> clientIp = ''::1'' \<or> startsWith clientIp ''192.168.'' \<or>
        startsWith clientIp ''10.''
     then (NotBlocked, w)
     else
       case geoip_lookup env clientIp of
         None \<Rightarrow> (NotBlocked, w)
       | Some country \<Rightarrow>
           if country = [] then (NotBlocked, w)
           else if length (allowedCountries w) > 0 \<and> country \<notin> set (allowedCountries w)
           then (Blocked (''Akses dari negara '' @ country @ '' tidak diizinkan'')
                   (Some ''GEO_BLOCKING'') None,
                 logAttack clientIp ''Geoblocking'' w)
           else (NotBlocked, w))"

definition inspectUrl :: "string \<Rightarrow> verdict" where
  "inspectUrl url =
    (let sqlResult = analyzePayload (Some (JStr url)) ''sqlInjection'' in
     if detected sqlResult
     then Blocked ''Potensi SQL Injection terdeteksi di URL'' (Some ''SQL_INJECTION'')
            (Some (matches sqlResult))
     else
       let xssResult = analyzePayload (Some (JStr url)) ''xss'' in
       if detected xssResult
       then Blocked ''Potensi XSS terdeteksi di URL'' (Some ''XSS'') (Some (matches xssResult))
       else
         let pathResult = analyzePayload (Some (JStr url)) ''pathTraversal'' in
         if detected pathResult
         then Blocked ''Potensi Path Traversal terdeteksi di URL'' (Some ''PATH_TRAVERSAL'')
                (Some (matches pathResult))
         else
           let fileResult = analyzePayload (Some (JStr url)) ''filenames'' in
           if detected fileResult
           then Blocked ''Akses ke file sensitif terdeteksi'' (Some ''SENSITIVE_FILE_ACCESS'')
                  (Some (matches fileResult))
           else NotBlocked)"

text \<open>
  The signature stage of \<^verbatim>\<open>inspectRequest\<close>: the URL scan for GET, the body scans in their
  fixed order otherwise. It yields the attack type given to \<^verbatim>\<open>logAttack\<close> and the verdict
  returned, or nothing when the request goes on to the DDoS check.
\<close>

definition inspectPayloads :: "waf \<Rightarrow> waf_request \<Rightarrow> (string \<times> verdict) option" where
  "inspectPayloads w req =
    (if req_http_method req = ''GET''
     then
       let urlResult = inspectUrl (req_url req) in
       if urlResult \<noteq> NotBlocked then Some (''URL'', urlResult) else None
     else
       let sqlResult = analyzePayload (req_body req) ''sqlInjection'' in
       if sqlInjection (activeRules w) \<and> detected sqlResult
       then Some (''SQL Injection'',
                  Blocked ''Potensi SQL Injection terdeteksi'' (Some ''SQL_INJECTION'')
                    (Some (matches sqlResult)))
       else
         let xssResult = analyzePayload (req_body req) ''xss'' in
         if xss (activeRules w) \<and> detected xssResult
         then Some (''XSS'',
                    Blocked ''Potensi Cross-Site Scripting (XSS) terdeteksi'' (Some ''XSS'')
                      (Some (matches xssResult)))
         else
           let cmdResult = analyzePayload (req_body req) ''commandInjection'' in
           if commandInjection (activeRules w) \<and> detected cmdResult
           then Some (''Command Injection'',
                      Blocked ''Potensi Command Injection terdeteksi'' (Some ''COMMAND_INJECTION'')
                        (Some (matches cmdResult)))
           else
             let pathResult = analyzePayload (Some (JStr (req_url req))) ''pathTraversal'' in
             if path_traversal (activeRules w) \<and> detected pathResult
             then Some (''Path Traversal'',
                        Blocked ''Potensi Path Traversal terdeteksi'' (Some ''PATH_TRAVERSAL'')
                          (Some (matches pathResult)))
             else None)"

definition inspectRequest :: "waf_env \<Rightarrow> waf_request \<Rightarrow> waf \<Rightarrow> verdict \<times> waf" where
  "inspectRequest env req w =
    (if \<not> isEnabled w then (NotBlocked, w)
     else
       let clientIp = req_ip req in
       if clientIp \<in> set (blockedIPs w)
       then (Blocked ''IP address telah diblokir'' None None, w)
       else
         case trackRequest clientIp (now_track req) w of
           Inl e \<Rightarrow> (Throws e, w)
         | Inr w1 \<Rightarrow>
             let (geoResult, w2) =
                   (if geoblocking (activeRules w1) then checkGeolocation env clientIp w1
                    else (NotBlocked, w1))
             in if geoResult \<noteq> NotBlocked then (geoResult, w2)
                else
                  case inspectPayloads w2 req of
                    Some (attackType, result) \<Rightarrow> (result, logAttack clientIp attackType w2)
                  | None \<Rightarrow>
                      if ddos (activeRules w2) then checkDDoS clientIp (now_check req) w2
                      else (NotBlocked, w2))"

definition cleanRequestCounts :: "int \<Rightarrow> waf \<Rightarrow> waf" where
  "cleanRequestCounts now w =
    (let cutoff = now - 300000 in
     w\<lparr>requestCounts := (\<lambda>ip.
          case requestCounts w ip of
            None \<Rightarrow> None
          | Some d \<Rightarrow>
              let ts = filter (\<lambda>time. time > cutoff) (timestamps d)
              in if length ts = 0 then None else Some (d\<lparr>timestamps := ts\<rparr>))\<rparr>)"

definition setEnabled :: "bool \<Rightarrow> waf \<Rightarrow> waf" where
  "setEnabled enable w = w\<lparr>isEnabled := enable\<rparr>"

definition setRuleEnabled :: "string \<Rightarrow> bool \<Rightarrow> waf \<Rightarrow> waf" where
  "setRuleEnabled rule enable w =
    (let a = activeRules w in
     if rule = ''sqlInjection'' then w\<lparr>activeRules := a\<lparr>sqlInjection := enable\<rparr>\<rparr>
     else if rule = ''xss'' then w\<lparr>activeRules := a\<lparr>xss := enable\<rparr>\<rparr>
     else if rule = ''commandInjection'' then w\<lparr>activeRules := a\<lparr>commandInjection := enable\<rparr>\<rparr>
     else if rule = ''path_traversal'' then w\<lparr>activeRules := a\<lparr>path_traversal := enable\<rparr>\<rparr>
     else if rule = ''ddos'' then w\<lparr>activeRules := a\<lparr>ddos := enable\<rparr>\<rparr>
     else if rule = ''geoblocking'' then w\<lparr>activeRules := a\<lparr>geoblocking := enable\<rparr>\<rparr>
     else w)"

definition setAllowedCountries :: "string list \<Rightarrow> waf \<Rightarrow> waf" where
  "setAllowedCountries countries w = w\<lparr>allowedCountries := countries\<rparr>"

text \<open>The methods of the instance, as calls that may arrive in any order.\<close>

datatype waf_call =
    InspectRequest waf_request
  | BlockIP string string json
  | CheckDDoS string int
  | CheckGeolocation string
  | TrackRequest string int
  | RecordBadRequest string
  | LogAttack string string
  | CleanRequestCounts int
  | SetEnabled bool
  | SetRuleEnabled string bool
  | SetAllowedCountries "string list"

fun waf_call_effect :: "waf_env \<Rightarrow> waf_call \<Rightarrow> waf \<Rightarrow> waf" where
  "waf_call_effect env (InspectRequest req) w = snd (inspectRequest env req w)"
| "waf_call_effect env (BlockIP ip reason details) w = blockIP ip reason details w"
| "waf_call_effect env (CheckDDoS ip now) w = snd (checkDDoS ip now w)"
| "waf_call_effect env (CheckGeolocation ip) w = snd (checkGeolocation env ip w)"
| "waf_call_effect env (TrackRequest ip now) w =
     (case trackRequest ip now w of Inl e \<Rightarrow> w | Inr w1 \<Rightarrow> w1)"
| "waf_call_effect env (RecordBadRequest ip) w = recordBadRequest ip w"
| "waf_call_effect env (LogAttack ip attackType) w = logAttack ip attackType w"
| "waf_call_effect env (CleanRequestCounts now) w = cleanRequestCounts now w"
| "waf_call_effect env (SetEnabled enable) w = setEnabled enable w"
| "waf_call_effect env (SetRuleEnabled rule enable) w = setRuleEnabled rule enable w"
| "waf_call_effect env (SetAllowedCountries countries) w = setAllowedCountries countries w"

definition waf_calls :: "waf_env \<Rightarrow> waf_call list \<Rightarrow> waf \<Rightarrow> waf" where
  "waf_calls env calls w = fold (waf_call_effect env) calls w"


subsection \<open>Bans only grow, and never reach a loopback address\<close>

definition loopback :: "string \<Rightarrow> bool" where
  "loopback ip = (ip = ''127.0.0.1'' \<or> ip = ''::1'')"

definition stamps :: "waf \<Rightarrow> string \<Rightarrow> int list" where
  "stamps w ip = (case requestCounts w ip of None \<Rightarrow> [] | Some d \<Rightarrow> timestamps d)"

definition settings :: "waf \<Rightarrow> bool \<times> active_rules \<times> waf_thresholds \<times> string list" where
  "settings w = (isEnabled w, activeRules w, thresholds w, allowedCountries w)"

text \<open>
  \<^verbatim>\<open>trackRequest\<close> records a request unless the address names an inherited member and
  has no entry of its own; \<open>tracked\<close> is the state after the recording.
\<close>

definition tracks :: "waf \<Rightarrow> string \<Rightarrow> bool" where
  "tracks w ip = (requestCounts w ip \<noteq> None \<or> ip \<notin> set Object_prototype)"

definition tracked :: "string \<Rightarrow> int \<Rightarrow> waf \<Rightarrow> waf" where
  "tracked ip now w =
    (case requestCounts w ip of
       None \<Rightarrow>
         w\<lparr>requestCounts := (requestCounts w)(ip \<mapsto>
              \<lparr>timestamps = [now], badRequests = 0, totalRequests = 1\<rparr>)\<rparr>
     | Some d \<Rightarrow>
         w\<lparr>requestCounts := (requestCounts w)(ip \<mapsto>
              d\<lparr>timestamps := timestamps d @ [now], totalRequests := totalRequests d + 1\<rparr>)\<rparr>)"

lemma trackRequest_eq:
  "trackRequest ip now w = (if tracks w ip then Inr (tracked ip now w) else Inl TypeError)"
  by (auto simp: trackRequest_def tracks_def tracked_def split: option.splits)

lemma set_fold_set_add: "set (fold set_add xs ys) = set xs \<union> set ys"
  by (induction xs arbitrary: ys) (auto simp: set_add_def)

lemma set_set_add: "set (set_add x xs) = insert x (set xs)"
  by (auto simp: set_add_def)

lemma blockIP_blocked:
  "set (blockedIPs (blockIP ip reason details w)) =
     (if loopback ip then set (blockedIPs w) else insert ip (set (blockedIPs w)))"
  by (simp add: blockIP_def loopback_def updateBlockList_def set_set_add Let_def)

lemma blockIP_blockList:
  "set (blockList (blockIP ip reason details w)) =
     (if loopback ip then set (blockList w) else insert ip (set (blockedIPs w)))"
  by (simp add: blockIP_def loopback_def updateBlockList_def set_set_add set_fold_set_add Let_def)

lemma blockIP_other:
  "isEnabled (blockIP ip reason details w) = isEnabled w"
  "activeRules (blockIP ip reason details w) = activeRules w"
  "thresholds (blockIP ip reason details w) = thresholds w"
  "allowedCountries (blockIP ip reason details w) = allowedCountries w"
  "requestCounts (blockIP ip reason details w) = requestCounts w"
  by (simp_all add: blockIP_def updateBlockList_def Let_def)

lemma recordBadRequest_blocked:
  "(set (blockedIPs (recordBadRequest ip w)) = set (blockedIPs w) \<and>
    set (blockList (recordBadRequest ip w)) = set (blockList w)) \<or>
   (\<not> loopback ip \<and> set (blockedIPs (recordBadRequest ip w)) = insert ip (set (blockedIPs w)) \<and>
    set (blockList (recordBadRequest ip w)) = insert ip (set (blockedIPs w)))"
  by (auto simp: recordBadRequest_def Let_def blockIP_blocked blockIP_blockList split: option.splits)

lemma recordBadRequest_other:
  "isEnabled (recordBadRequest ip w) = isEnabled w"
  "activeRules (recordBadRequest ip w) = activeRules w"
  "thresholds (recordBadRequest ip w) = thresholds w"
  "allowedCountries (recordBadRequest ip w) = allowedCountries w"
  "stamps (recordBadRequest ip w) a = stamps w a"
  by (auto simp: recordBadRequest_def Let_def blockIP_other stamps_def split: option.splits)

lemma tracked_other:
  "isEnabled (tracked ip now w) = isEnabled w"
  "activeRules (tracked ip now w) = activeRules w"
  "thresholds (tracked ip now w) = thresholds w"
  "allowedCountries (tracked ip now w) = allowedCountries w"
  "blockedIPs (tracked ip now w) = blockedIPs w"
  "blockList (tracked ip now w) = blockList w"
  "stamps (tracked ip now w) a = (if a = ip then stamps w ip @ [now] else stamps w a)"
  by (auto simp: tracked_def stamps_def split: option.splits)

lemma tracked_tracks: "tracks (tracked ip now w) a = (a = ip \<or> tracks w a)"
  by (auto simp: tracked_def tracks_def split: option.splits)

lemma checkDDoS_other:
  "isEnabled (snd (checkDDoS ip now w)) = isEnabled w"
  "activeRules (snd (checkDDoS ip now w)) = activeRules w"
  "thresholds (snd (checkDDoS ip now w)) = thresholds w"
  "allowedCountries (snd (checkDDoS ip now w)) = allowedCountries w"
  "stamps (snd (checkDDoS ip now w)) a = stamps w a"
  by (auto simp: checkDDoS_def Let_def blockIP_other stamps_def split: option.splits)

lemma checkDDoS_blocked:
  "(set (blockedIPs (snd (checkDDoS ip now w))) = set (blockedIPs w) \<and>
    set (blockList (snd (checkDDoS ip now w))) = set (blockList w)) \<or>
   (\<not> loopback ip \<and> set (blockedIPs (snd (checkDDoS ip now w))) = insert ip (set (blockedIPs w)) \<and>
    set (blockList (snd (checkDDoS ip now w))) = insert ip (set (blockedIPs w)))"
  by (auto simp: checkDDoS_def Let_def blockIP_blocked blockIP_blockList split: option.splits)

lemma checkGeolocation_other:
  "isEnabled (snd (checkGeolocation env ip w)) = isEnabled w"
  "activeRules (snd (checkGeolocation env ip w)) = activeRules w"
  "thresholds (snd (checkGeolocation env ip w)) = thresholds w"
  "allowedCountries (snd (checkGeolocation env ip w)) = allowedCountries w"
  "stamps (snd (checkGeolocation env ip w)) a = stamps w a"
  by (auto simp: checkGeolocation_def logAttack_def recordBadRequest_other split: option.splits)

lemma checkGeolocation_blocked:
  "(set (blockedIPs (snd (checkGeolocation env ip w))) = set (blockedIPs w) \<and>
    set (blockList (snd (checkGeolocation env ip w))) = set (blockList w)) \<or>
   (\<not> loopback ip \<and>
    set (blockedIPs (snd (checkGeolocation env ip w))) = insert ip (set (blockedIPs w)) \<and>
    set (blockList (snd (checkGeolocation env ip w))) = insert ip (set (blockedIPs w)))"
  using recordBadRequest_blocked [of ip w]
  by (auto simp: checkGeolocation_def logAttack_def split: option.splits)

lemma checkGeolocation_pass:
  "fst (checkGeolocation env ip w) = NotBlocked \<Longrightarrow> snd (checkGeolocation env ip w) = w"
  by (auto simp: checkGeolocation_def split: option.splits if_splits)


lemma checkGeolocation_verdict_cong:
  "allowedCountries w = allowedCountries w' \<Longrightarrow>
   fst (checkGeolocation env ip w) = fst (checkGeolocation env ip w')"
  by (auto simp: checkGeolocation_def split: option.splits)

lemma inspectPayloads_cong:
  "activeRules w = activeRules w' \<Longrightarrow> inspectPayloads w req = inspectPayloads w' req"
  by (simp add: inspectPayloads_def Let_def)

lemma logAttack_other:
  "isEnabled (logAttack ip ty w) = isEnabled w"
  "activeRules (logAttack ip ty w) = activeRules w"
  "thresholds (logAttack ip ty w) = thresholds w"
  "allowedCountries (logAttack ip ty w) = allowedCountries w"
  "stamps (logAttack ip ty w) a = stamps w a"
  by (simp_all add: logAttack_def recordBadRequest_other)

lemma inspectRequest_banned:
  "isEnabled w \<Longrightarrow> req_ip req \<in> set (blockedIPs w) \<Longrightarrow>
   inspectRequest env req w = (Blocked ''IP address telah diblokir'' None None, w)"
  by (simp add: inspectRequest_def)

lemma inspectRequest_other:
  "isEnabled (snd (inspectRequest env req w)) = isEnabled w"
  "activeRules (snd (inspectRequest env req w)) = activeRules w"
  "thresholds (snd (inspectRequest env req w)) = thresholds w"
  "allowedCountries (snd (inspectRequest env req w)) = allowedCountries w"
  by (auto simp: inspectRequest_def Let_def trackRequest_eq tracked_other checkGeolocation_other
        logAttack_other checkDDoS_other split: prod.splits option.splits
        dest!: arg_cong [where f = snd])

lemma inspectRequest_throws:
  assumes "isEnabled w" and "req_ip req \<notin> set (blockedIPs w)" and "\<not> tracks w (req_ip req)"
  shows "inspectRequest env req w = (Throws TypeError, w)"
  using assms by (simp add: inspectRequest_def trackRequest_eq)


lemma inspectRequest_stages:
  assumes "isEnabled w" and "req_ip req \<notin> set (blockedIPs w)" and "tracks w (req_ip req)"
  shows "inspectRequest env req w =
    (let w1 = tracked (req_ip req) (now_track req) w in
     if geoblocking (activeRules w) \<and> fst (checkGeolocation env (req_ip req) w) \<noteq> NotBlocked
     then checkGeolocation env (req_ip req) w1
     else case inspectPayloads w req of
            Some (attackType, result) \<Rightarrow> (result, logAttack (req_ip req) attackType w1)
          | None \<Rightarrow>
              if ddos (activeRules w) then checkDDoS (req_ip req) (now_check req) w1
              else (NotBlocked, w1))"
proof -
  let ?ip = "req_ip req"
  let ?w1 = "tracked ?ip (now_track req) w"
  have geo: "fst (checkGeolocation env ?ip ?w1) = fst (checkGeolocation env ?ip w)"
    by (rule checkGeolocation_verdict_cong) (simp add: tracked_other)
  have pay: "inspectPayloads ?w1 req = inspectPayloads w req"
    by (rule inspectPayloads_cong) (simp add: tracked_other)
  show ?thesis
  proof (cases "geoblocking (activeRules w) \<and> fst (checkGeolocation env ?ip w) \<noteq> NotBlocked")
    case True
    then show ?thesis
      using assms geo
      by (cases "checkGeolocation env ?ip ?w1")
         (simp add: inspectRequest_def Let_def trackRequest_eq tracked_other)
  next
    case False
    then have "(if geoblocking (activeRules ?w1) then checkGeolocation env ?ip ?w1
                else (NotBlocked, ?w1)) = (NotBlocked, ?w1)"
      using geo checkGeolocation_pass [of env ?ip ?w1]
      by (auto simp: tracked_other intro: prod_eqI)
    then show ?thesis
      using assms False pay
      by (auto simp: inspectRequest_def Let_def trackRequest_eq tracked_other)
  qed
qed

lemma inspectRequest_blocked:
  "(set (blockedIPs (snd (inspectRequest env req w))) = set (blockedIPs w) \<and>
    set (blockList (snd (inspectRequest env req w))) = set (blockList w)) \<or>
   (\<not> loopback (req_ip req) \<and>
    set (blockedIPs (snd (inspectRequest env req w))) = insert (req_ip req) (set (blockedIPs w)) \<and>
    set (blockList (snd (inspectRequest env req w))) = insert (req_ip req) (set (blockedIPs w)))"
proof (cases "isEnabled w \<and> req_ip req \<notin> set (blockedIPs w)")
  case False
  then show ?thesis
    by (auto simp: inspectRequest_def)
next
  case True
  let ?ip = "req_ip req"
  let ?w1 = "tracked ?ip (now_track req) w"
  show ?thesis
  proof (cases "tracks w ?ip")
    case False
    then show ?thesis
      using True by (simp add: inspectRequest_throws)
  next
    case tr: True
    show ?thesis
      using True tr checkGeolocation_blocked [of env ?ip ?w1]
        checkDDoS_blocked [of ?ip "now_check req" ?w1] recordBadRequest_blocked [of ?ip ?w1]
      by (auto simp: inspectRequest_stages Let_def tracked_other logAttack_def
            split: option.splits)
  qed
qed

lemma inspectRequest_stamps:
  "stamps (snd (inspectRequest env req w)) a =
     (if isEnabled w \<and> req_ip req \<notin> set (blockedIPs w) \<and> tracks w (req_ip req) \<and> a = req_ip req
      then stamps w a @ [now_track req] else stamps w a)"
proof (cases "isEnabled w \<and> req_ip req \<notin> set (blockedIPs w)")
  case False
  then show ?thesis
    by (auto simp: inspectRequest_def)
next
  case True
  show ?thesis
  proof (cases "tracks w (req_ip req)")
    case False
    then show ?thesis
      using True by (simp add: inspectRequest_throws)
  next
    case tr: True
    then show ?thesis
      using True
      by (auto simp: inspectRequest_stages Let_def tracked_other logAttack_other
            checkGeolocation_other checkDDoS_other split: option.splits)
  qed
qed


lemma cleanRequestCounts_other:
  "blockedIPs (cleanRequestCounts now w) = blockedIPs w"
  "blockList (cleanRequestCounts now w) = blockList w"
  by (simp_all add: cleanRequestCounts_def Let_def)

lemma setters_other:
  "blockedIPs (setEnabled b w) = blockedIPs w"
  "blockList (setEnabled b w) = blockList w"
  "blockedIPs (setRuleEnabled rule b w) = blockedIPs w"
  "blockList (setRuleEnabled rule b w) = blockList w"
  "blockedIPs (setAllowedCountries cs w) = blockedIPs w"
  "blockList (setAllowedCountries cs w) = blockList w"
  by (simp_all add: setEnabled_def setRuleEnabled_def setAllowedCountries_def Let_def)

definition ban_step :: "waf \<Rightarrow> waf \<Rightarrow> bool" where
  "ban_step w w' =
    ((set (blockedIPs w') = set (blockedIPs w) \<and> set (blockList w') = set (blockList w)) \<or>
     (\<exists>ip. \<not> loopback ip \<and> set (blockedIPs w') = insert ip (set (blockedIPs w)) \<and>
           set (blockList w') = insert ip (set (blockedIPs w))))"

lemma waf_call_effect_ban_step: "ban_step w (waf_call_effect env call w)"
proof (cases call)
  case (InspectRequest req)
  then show ?thesis
    using inspectRequest_blocked [of env req w] by (auto simp: ban_step_def)
next
  case (BlockIP ip reason details)
  then show ?thesis
    by (auto simp: ban_step_def blockIP_blocked blockIP_blockList)
next
  case (CheckDDoS ip now)
  then show ?thesis
    using checkDDoS_blocked [of ip now w] by (auto simp: ban_step_def)
next
  case (CheckGeolocation ip)
  then show ?thesis
    using checkGeolocation_blocked [of env ip w] by (auto simp: ban_step_def)
next
  case (RecordBadRequest ip)
  then show ?thesis
    using recordBadRequest_blocked [of ip w] by (auto simp: ban_step_def)
next
  case (LogAttack ip attackType)
  then show ?thesis
    using recordBadRequest_blocked [of ip w] by (auto simp: ban_step_def logAttack_def)
qed (simp_all add: ban_step_def trackRequest_eq tracked_other cleanRequestCounts_other setters_other)

lemma ban_step_mono: "ban_step w w' \<Longrightarrow> set (blockedIPs w) \<subseteq> set (blockedIPs w')"
  by (auto simp: ban_step_def)

lemma ban_step_published:
  "ban_step w w' \<Longrightarrow> set (blockList w) = set (blockedIPs w) \<Longrightarrow>
   set (blockList w') = set (blockedIPs w')"
  by (auto simp: ban_step_def)

lemma ban_step_loopback:
  "ban_step w w' \<Longrightarrow> loopback a \<Longrightarrow> a \<notin> set (blockedIPs w) \<Longrightarrow> a \<notin> set (blockList w) \<Longrightarrow>
   a \<notin> set (blockedIPs w') \<and> a \<notin> set (blockList w')"
  by (auto simp: ban_step_def)

lemma waf_calls_mono: "set (blockedIPs w) \<subseteq> set (blockedIPs (waf_calls env calls w))"
  unfolding waf_calls_def
proof (induction calls arbitrary: w)
  case Nil
  then show ?case by simp
next
  case (Cons c cs)
  have "set (blockedIPs w) \<subseteq> set (blockedIPs (waf_call_effect env c w))"
    by (rule ban_step_mono) (rule waf_call_effect_ban_step)
  also have "\<dots> \<subseteq> set (blockedIPs (fold (waf_call_effect env) cs (waf_call_effect env c w)))"
    by (rule Cons.IH)
  finally show ?case by simp
qed

lemma waf_calls_published:
  "set (blockList w) = set (blockedIPs w) \<Longrightarrow>
   set (blockList (waf_calls env calls w)) = set (blockedIPs (waf_calls env calls w))"
  unfolding waf_calls_def
proof (induction calls arbitrary: w)
  case Nil
  then show ?case by simp
next
  case (Cons c cs)
  have "set (blockList (waf_call_effect env c w)) = set (blockedIPs (waf_call_effect env c w))"
    using waf_call_effect_ban_step Cons.prems by (rule ban_step_published)
  then show ?case
    using Cons.IH by simp
qed

lemma waf_calls_loopback:
  "loopback a \<Longrightarrow> a \<notin> set (blockedIPs w) \<Longrightarrow> a \<notin> set (blockList w) \<Longrightarrow>
   a \<notin> set (blockedIPs (waf_calls env calls w)) \<and> a \<notin> set (blockList (waf_calls env calls w))"
  unfolding waf_calls_def
proof (induction calls arbitrary: w)
  case Nil
  then show ?case by simp
next
  case (Cons c cs)
  have "a \<notin> set (blockedIPs (waf_call_effect env c w)) \<and> a \<notin> set (blockList (waf_call_effect env c w))"
    using waf_call_effect_ban_step Cons.prems by (rule ban_step_loopback)
  then show ?case
    using Cons.IH [of "waf_call_effect env c w"] Cons.prems(1) by simp
qed


lemma inspectUrl_category: "inspectUrl url = Blocked r c m \<Longrightarrow> c \<noteq> None"
  by (auto simp: inspectUrl_def Let_def split: if_splits)

lemma inspectPayloads_category: "inspectPayloads w req = Some (ty, Blocked r c m) \<Longrightarrow> c \<noteq> None"
  by (auto simp: inspectPayloads_def Let_def split: if_splits dest: inspectUrl_category)

lemma checkGeolocation_category: "fst (checkGeolocation env ip w) = Blocked r c m \<Longrightarrow> c \<noteq> None"
  by (auto simp: checkGeolocation_def split: if_splits option.splits)

lemma checkDDoS_category: "fst (checkDDoS ip now w) = Blocked r c m \<Longrightarrow> c \<noteq> None"
  by (auto simp: checkDDoS_def Let_def split: if_splits option.splits)

lemma inspectRequest_ban_verdict:
  assumes "fst (inspectRequest env req w) = Blocked r None m"
  shows "isEnabled w \<and> req_ip req \<in> set (blockedIPs w)"
proof (rule ccontr)
  assume neg: "\<not> (isEnabled w \<and> req_ip req \<in> set (blockedIPs w))"
  show False
  proof (cases "isEnabled w")
    case False
    then show False using assms by (simp add: inspectRequest_def)
  next
    case True
    then have nb: "req_ip req \<notin> set (blockedIPs w)" using neg by simp
    let ?w1 = "tracked (req_ip req) (now_track req) w"
    show False
    proof (cases "tracks w (req_ip req)")
      case False
      then show False
        using assms True nb by (simp add: inspectRequest_throws)
    next
      case tr: True
      show False
        using assms checkGeolocation_category [of env "req_ip req" ?w1 r None m]
          checkDDoS_category [of "req_ip req" "now_check req" ?w1 r None m]
          inspectPayloads_category [of w req _ r None m]
        unfolding inspectRequest_stages [OF True nb tr] Let_def
        by (auto split: if_splits option.splits)
    qed
  qed
qed

text \<open>
  Claim C10. For every reason and details, \<^verbatim>\<open>blockIP\<close> on \<^verbatim>\<open>127.0.0.1\<close> or \<^verbatim>\<open>::1\<close> returns
  the state unchanged. Hence, from any state in which such an address is in neither set,
  no sequence of calls puts it there: the rate limiter's \<^verbatim>\<open>ipBlocker\<close> lets it through
  and \<^verbatim>\<open>inspectRequest\<close> never answers it with the ban verdict.
\<close>

theorem loopback_never_banned:
  assumes "ip = ''127.0.0.1'' \<or> ip = ''::1''"
  shows "blockIP ip reason details w = w \<and>
         (ip \<notin> set (blockedIPs w) \<and> ip \<notin> set (blockList w) \<longrightarrow>
            ip \<notin> set (blockedIPs (waf_calls env calls w)) \<and>
            ip \<notin> set (blockList (waf_calls env calls w)) \<and>
            ipBlocker ip (waf_calls env calls w) = Next \<and>
            (\<forall>req m. req_ip req = ip \<longrightarrow>
               fst (inspectRequest env req (waf_calls env calls w)) \<noteq>
                 Blocked ''IP address telah diblokir'' None m))"
proof -
  have lb: "loopback ip"
    using assms by (simp add: loopback_def)
  have unchanged: "blockIP ip reason details w = w"
    using assms by (auto simp: blockIP_def)
  have later: "ip \<notin> set (blockedIPs (waf_calls env calls w)) \<and>
               ip \<notin> set (blockList (waf_calls env calls w))"
    if "ip \<notin> set (blockedIPs w)" "ip \<notin> set (blockList w)"
    using lb that by (rule waf_calls_loopback)
  show ?thesis
    using unchanged later inspectRequest_ban_verdict [of env _ "waf_calls env calls w"]
    by (auto simp: ipBlocker_def)
qed


subsection \<open>The DDoS heuristic\<close>

lemma waf_calls_append:
  "waf_calls env (xs @ ys) w = waf_calls env ys (waf_calls env xs w)"
  by (simp add: waf_calls_def)

lemma inspections_settings:
  "isEnabled (waf_calls env (map InspectRequest reqs) w) = isEnabled w \<and>
   activeRules (waf_calls env (map InspectRequest reqs) w) = activeRules w \<and>
   thresholds (waf_calls env (map InspectRequest reqs) w) = thresholds w \<and>
   allowedCountries (waf_calls env (map InspectRequest reqs) w) = allowedCountries w"
  unfolding waf_calls_def
  by (induction reqs arbitrary: w) (simp_all add: inspectRequest_other)

lemma inspections_stamps:
  assumes "\<forall>q \<in> set reqs. req_ip q = ip" and "isEnabled w" and "ip \<notin> set Object_prototype"
  shows "ip \<in> set (blockedIPs (waf_calls env (map InspectRequest reqs) w)) \<or>
         stamps (waf_calls env (map InspectRequest reqs) w) ip = stamps w ip @ map now_track reqs"
  using assms
proof (induction reqs arbitrary: w)
  case Nil
  then show ?case by (simp add: waf_calls_def)
next
  case (Cons q qs)
  let ?w1 = "snd (inspectRequest env q w)"
  have run: "waf_calls env (map InspectRequest (q # qs)) w = waf_calls env (map InspectRequest qs) ?w1"
    by (simp add: waf_calls_def)
  have en: "isEnabled ?w1"
    using Cons.prems by (simp add: inspectRequest_other)
  have ih: "ip \<in> set (blockedIPs (waf_calls env (map InspectRequest qs) ?w1)) \<or>
            stamps (waf_calls env (map InspectRequest qs) ?w1) ip = stamps ?w1 ip @ map now_track qs"
    using Cons.prems en by (intro Cons.IH) simp_all
  show ?case
  proof (cases "ip \<in> set (blockedIPs w)")
    case True
    then have "ip \<in> set (blockedIPs ?w1)"
      using ban_step_mono [OF waf_call_effect_ban_step [of w env "InspectRequest q"]] by auto
    then have "ip \<in> set (blockedIPs (waf_calls env (map InspectRequest qs) ?w1))"
      using waf_calls_mono by blast
    then show ?thesis unfolding run by simp
  next
    case False
    then have "stamps ?w1 ip = stamps w ip @ [now_track q]"
      using Cons.prems by (simp add: inspectRequest_stamps tracks_def)
    then show ?thesis
      using ih unfolding run by auto
  qed
qed

lemma checkDDoS_bans:
  assumes "length (filter (\<lambda>time. time > now - 1000) (stamps w ip)) > requestsPerSecond (thresholds w)"
    and "\<not> loopback ip"
  shows "fst (checkDDoS ip now w) =
           Blocked ''Rate limit terlampaui, potensi DDoS'' (Some ''DDOS_PROTECTION'') None \<and>
         ip \<in> set (blockedIPs (snd (checkDDoS ip now w)))"
  using assms
  by (auto simp: checkDDoS_def stamps_def Let_def blockIP_blocked split: option.splits)

text \<open>
  The check in terms of the state alone, whatever calls led to it: once the timestamps
  recorded for an address within the last second, the present request included, exceed
  the threshold, a request that reaches the DDoS check is refused and the address banned.
\<close>

lemma ddos_threshold_bans:
  assumes enabled: "isEnabled w" and rule: "ddos (activeRules w)"
    and notloop: "ip \<noteq> ''127.0.0.1'' \<and> ip \<noteq> ''::1''"
    and src: "req_ip r = ip" and free: "ip \<notin> set (blockedIPs w)" and tr: "tracks w ip"
    and geo: "geoblocking (activeRules w) \<longrightarrow> fst (checkGeolocation env ip w) = NotBlocked"
    and sig: "inspectPayloads w r = None"
    and many: "length (filter (\<lambda>time. time > now_check r - 1000) (stamps w ip @ [now_track r])) >
               requestsPerSecond (thresholds w)"
  shows "fst (inspectRequest env r w) =
           Blocked ''Rate limit terlampaui, potensi DDoS'' (Some ''DDOS_PROTECTION'') None \<and>
         ip \<in> set (blockedIPs (snd (inspectRequest env r w)))"
proof -
  let ?w1 = "tracked ip (now_track r) w"
  have nl: "\<not> loopback ip"
    using notloop by (simp add: loopback_def)
  have cnt: "length (filter (\<lambda>time. time > now_check r - 1000) (stamps ?w1 ip)) >
             requestsPerSecond (thresholds ?w1)"
    using many by (simp add: tracked_other)
  have "inspectRequest env r w = checkDDoS ip (now_check r) ?w1"
    using enabled rule src free tr geo sig by (auto simp: inspectRequest_stages Let_def)
  then show ?thesis
    using checkDDoS_bans [OF cnt nl] by simp
qed

text \<open>
  Claim C8, as amended. Let an address other than \<^verbatim>\<open>127.0.0.1\<close> and \<^verbatim>\<open>::1\<close> send more
  requests than the per-second threshold, all tracked within the second before the last
  one's DDoS check (the address does not name an inherited member, for which
  \<^verbatim>\<open>trackRequest\<close> throws), and let the last one reach that check (no geo-block, no
  signature match). Then the last request is rejected, the address is in the blocked set
  and in the rate limiter's list, and every later \<^verbatim>\<open>inspectRequest\<close> from it, after any
  calls whatever, is answered with the ban verdict while the WAF is enabled. No call
  removes an address.
\<close>

theorem ddos_burst_bans:
  assumes enabled: "isEnabled w" and rule: "ddos (activeRules w)"
    and notloop: "ip \<noteq> ''127.0.0.1'' \<and> ip \<noteq> ''::1''"
    and own: "ip \<notin> set Object_prototype"
    and pub: "set (blockList w) = set (blockedIPs w)"
    and src: "\<forall>q \<in> set (reqs @ [r]). req_ip q = ip"
    and many: "length (reqs @ [r]) > requestsPerSecond (thresholds w)"
    and window: "\<forall>q \<in> set (reqs @ [r]). now_track q > now_check r - 1000"
    and geo: "geoblocking (activeRules w) \<longrightarrow> fst (checkGeolocation env ip w) = NotBlocked"
    and sig: "inspectPayloads w r = None"
    and final: "w' = waf_calls env (map InspectRequest (reqs @ [r])) w"
  shows "(\<exists>reason category.
            fst (inspectRequest env r (waf_calls env (map InspectRequest reqs) w)) =
              Blocked reason category None) \<and>
         ip \<in> set (blockedIPs w') \<and> set (blockList w') = set (blockedIPs w') \<and>
         ipBlocker ip w' = Respond 403 ''Akses dari IP Anda diblokir. Silakan hubungi administrator.'' \<and>
         (\<forall>calls req. req_ip req = ip \<and> isEnabled (waf_calls env calls w') \<longrightarrow>
            inspectRequest env req (waf_calls env calls w') =
              (Blocked ''IP address telah diblokir'' None None, waf_calls env calls w'))"
proof -
  let ?wk = "waf_calls env (map InspectRequest reqs) w"
  have nl: "\<not> loopback ip"
    using notloop by (simp add: loopback_def)
  have ipr: "req_ip r = ip"
    using src by simp
  have w': "w' = snd (inspectRequest env r ?wk)"
    unfolding final by (simp add: waf_calls_def)
  have cfg: "isEnabled ?wk" "activeRules ?wk = activeRules w" "thresholds ?wk = thresholds w"
    "allowedCountries ?wk = allowedCountries w"
    using inspections_settings [of env reqs w] enabled by simp_all
  have tr: "tracks ?wk ip"
    using own by (simp add: tracks_def)
  have step: "(\<exists>reason category. fst (inspectRequest env r ?wk) = Blocked reason category None) \<and>
              ip \<in> set (blockedIPs w')"
  proof (cases "ip \<in> set (blockedIPs ?wk)")
    case True
    then show ?thesis
      unfolding w' using cfg(1) ipr by (simp add: inspectRequest_banned)
  next
    case False
    let ?w1 = "tracked ip (now_track r) ?wk"
    have "stamps ?wk ip = stamps w ip @ map now_track reqs"
      using inspections_stamps [of reqs ip w env] src enabled own False by auto
    then have st: "stamps ?w1 ip = stamps w ip @ map now_track (reqs @ [r])"
      by (simp add: tracked_other)
    have "\<forall>t \<in> set (map now_track (reqs @ [r])). t > now_check r - 1000"
      using window by auto
    then have "filter (\<lambda>time. time > now_check r - 1000) (map now_track (reqs @ [r])) =
               map now_track (reqs @ [r])"
      by (intro filter_True) blast
    then have "length (filter (\<lambda>time. time > now_check r - 1000) (stamps ?w1 ip)) \<ge>
               length (reqs @ [r])"
      unfolding st filter_append by simp
    then have cnt: "length (filter (\<lambda>time. time > now_check r - 1000) (stamps ?w1 ip)) >
               requestsPerSecond (thresholds ?w1)"
      using many cfg(3) by (simp add: tracked_other)
    have g: "\<not> (geoblocking (activeRules ?wk) \<and> fst (checkGeolocation env ip ?wk) \<noteq> NotBlocked)"
      using geo cfg checkGeolocation_verdict_cong [of ?wk w env ip] by auto
    have s: "inspectPayloads ?wk r = None"
      using sig cfg inspectPayloads_cong [of ?wk w r] by simp
    have "inspectRequest env r ?wk = checkDDoS ip (now_check r) ?w1"
      using g s rule cfg False ipr tr
      by (auto simp: inspectRequest_stages Let_def)
    then show ?thesis
      unfolding w' using checkDDoS_bans [OF cnt nl] by simp
  qed
  have pub': "set (blockList w') = set (blockedIPs w')"
    unfolding final using pub by (rule waf_calls_published)
  have later: "inspectRequest env req (waf_calls env calls w') =
                 (Blocked ''IP address telah diblokir'' None None, waf_calls env calls w')"
    if "req_ip req = ip" "isEnabled (waf_calls env calls w')" for calls req
  proof -
    have "ip \<in> set (blockedIPs (waf_calls env calls w'))"
      using step waf_calls_mono by blast
    then show ?thesis
      using that by (simp add: inspectRequest_banned)
  qed
  show ?thesis
    using step pub' later by (auto simp: ipBlocker_def)
qed


text \<open>Concrete runs: the WAF as constructed in production, every address in Indonesia.\<close>

definition demo_env :: waf_env where
  "demo_env = \<lparr>geoip_lookup = (\<lambda>ip. Some ''ID'')\<rparr>"

definition post_at :: "string \<Rightarrow> json option \<Rightarrow> int \<Rightarrow> waf_request" where
  "post_at ip body t =
     \<lparr>req_ip = ip, req_http_method = ''POST'', req_url = ''/'', req_body = body,
      now_track = t, now_check = t\<rparr>"

definition burst :: "string \<Rightarrow> waf_request list" where
  "burst ip = map (\<lambda>t. post_at ip None t) [1, 2, 3, 4, 5, 6, 7, 8, 9, 10]"

definition production_waf :: waf where
  "production_waf = new_WAF False None"

lemma production_waf_simps:
  "isEnabled production_waf" "ddos (activeRules production_waf)"
  "blockedIPs production_waf = []" "blockList production_waf = []"
  "requestsPerSecond (thresholds production_waf) = 10"
  by (simp_all add: production_waf_def new_WAF_def)

theorem ddos_burst_bans_witness:
  "''203.0.113.7'' \<in> set (blockedIPs (waf_calls demo_env
       (map InspectRequest (burst ''203.0.113.7'' @ [post_at ''203.0.113.7'' None 11]))
       production_waf)) \<and>
   inspectRequest demo_env (post_at ''203.0.113.7'' None 900000)
     (waf_calls demo_env [CleanRequestCounts 800000]
       (waf_calls demo_env
         (map InspectRequest (burst ''203.0.113.7'' @ [post_at ''203.0.113.7'' None 11]))
         production_waf)) =
     (Blocked ''IP address telah diblokir'' None None,
      waf_calls demo_env [CleanRequestCounts 800000]
       (waf_calls demo_env
         (map InspectRequest (burst ''203.0.113.7'' @ [post_at ''203.0.113.7'' None 11]))
         production_waf))"
proof -
  let ?ip = "''203.0.113.7''"
  let ?r = "post_at ?ip None 11"
  let ?w' = "waf_calls demo_env (map InspectRequest (burst ?ip @ [?r])) production_waf"
  have notloop: "?ip \<noteq> ''127.0.0.1'' \<and> ?ip \<noteq> ''::1''"
    by simp
  have pub: "set (blockList production_waf) = set (blockedIPs production_waf)"
    by (simp add: production_waf_simps)
  have src: "\<forall>q \<in> set (burst ?ip @ [?r]). req_ip q = ?ip"
    by (simp add: burst_def post_at_def)
  have many: "length (burst ?ip @ [?r]) > requestsPerSecond (thresholds production_waf)"
    by (simp add: burst_def production_waf_simps)
  have window: "\<forall>q \<in> set (burst ?ip @ [?r]). now_track q > now_check ?r - 1000"
    by (simp add: burst_def post_at_def)
  have geo: "geoblocking (activeRules production_waf) \<longrightarrow>
             fst (checkGeolocation demo_env ?ip production_waf) = NotBlocked"
    unfolding production_waf_def by code_simp
  have sig: "inspectPayloads production_waf ?r = None"
    unfolding production_waf_def by code_simp
  have en: "isEnabled (waf_calls demo_env [CleanRequestCounts 800000] ?w')"
    using inspections_settings [of demo_env "burst ?ip @ [?r]" production_waf]
    by (simp add: waf_calls_def cleanRequestCounts_def production_waf_simps)
  have r900: "req_ip (post_at ?ip None 900000) = ?ip"
    by (simp add: post_at_def)
  have own: "?ip \<notin> set Object_prototype"
    by (simp add: Object_prototype_def)
  from ddos_burst_bans [OF production_waf_simps(1,2) notloop own pub src many window geo sig refl]
  show ?thesis
    using en r900 by blast
qed

text \<open>
  Claim C8 as stated fails for the loopback addresses: eleven requests from \<^verbatim>\<open>127.0.0.1\<close>
  within eleven milliseconds leave both sets empty; the eleventh is refused by the DDoS
  check, not as banned, and a request five seconds later passes.
\<close>

theorem ddos_loopback_counterexample:
  "blockedIPs (waf_calls demo_env
       (map InspectRequest (burst ''127.0.0.1'' @ [post_at ''127.0.0.1'' None 11]))
       production_waf) = [] \<and>
   blockList (waf_calls demo_env
       (map InspectRequest (burst ''127.0.0.1'' @ [post_at ''127.0.0.1'' None 11]))
       production_waf) = [] \<and>
   fst (inspectRequest demo_env (post_at ''127.0.0.1'' None 11)
     (waf_calls demo_env (map InspectRequest (burst ''127.0.0.1'')) production_waf)) =
     Blocked ''Rate limit terlampaui, potensi DDoS'' (Some ''DDOS_PROTECTION'') None \<and>
   fst (inspectRequest demo_env (post_at ''127.0.0.1'' None 5000)
     (waf_calls demo_env
       (map InspectRequest (burst ''127.0.0.1'' @ [post_at ''127.0.0.1'' None 11]))
       production_waf)) = NotBlocked"
  unfolding production_waf_def by code_simp

text \<open>
  An address that names an inherited member is never tracked: each inspection of a
  request from \<^verbatim>\<open>constructor\<close> throws, and a burst leaves both sets empty.
\<close>

lemma inherited_name_burst_throws:
  "fst (inspectRequest demo_env (post_at ''constructor'' None 1) production_waf) = Throws TypeError \<and>
   blockedIPs (waf_calls demo_env
       (map InspectRequest (burst ''constructor'' @ [post_at ''constructor'' None 11]))
       production_waf) = [] \<and>
   fst (inspectRequest demo_env (post_at ''constructor'' None 11)
     (waf_calls demo_env (map InspectRequest (burst ''constructor'')) production_waf)) =
     Throws TypeError"
  unfolding production_waf_def by code_simp

theorem loopback_never_banned_witness:
  "blockIP ''127.0.0.1'' ''DDoS'' JNull production_waf = production_waf \<and>
   ''127.0.0.1'' \<notin> set (blockedIPs (waf_calls demo_env
       (map InspectRequest (burst ''127.0.0.1'' @ [post_at ''127.0.0.1'' None 11]))
       production_waf)) \<and>
   ipBlocker ''127.0.0.1'' (waf_calls demo_env
       (map InspectRequest (burst ''127.0.0.1'' @ [post_at ''127.0.0.1'' None 11]))
       production_waf) = Next"
  using loopback_never_banned [of "''127.0.0.1''" "''DDoS''" JNull production_waf demo_env
      "map InspectRequest (burst ''127.0.0.1'' @ [post_at ''127.0.0.1'' None 11])"]
  by (simp add: production_waf_simps)


subsection \<open>Signature scans of concrete bodies\<close>

definition tautology :: string where
  "tautology = [squote] @ '' OR '' @ [squote] @ ''1'' @ [squote] @ ''='' @ [squote] @ ''1''"

definition login_request :: "json \<Rightarrow> waf_request" where
  "login_request body =
     \<lparr>req_ip = ''203.0.113.7'', req_http_method = ''POST'', req_url = ''/api/auth/login'',
      req_body = Some body, now_track = 1000, now_check = 1000\<rparr>"

text \<open>
  Claim C7. The body \<^verbatim>\<open>{"email":"a@b.c","password":"' OR '1'='1"}\<close> of a POST matches no
  SQL-injection signature (each of them needs \<^verbatim>\<open>--\<close>, two semicolons or an SQL keyword
  pair), nor any other, and the request is not blocked; nor is the bare string.
\<close>

theorem sql_tautology_not_blocked:
  "stringify (JObj [(''email'', JStr ''a@b.c''), (''password'', JStr tautology)]) =
     ''{'' @ [dquote] @ ''email'' @ [dquote] @ '':'' @ [dquote] @ ''a@b.c'' @ [dquote] @ '','' @
     [dquote] @ ''password'' @ [dquote] @ '':'' @ [dquote] @ tautology @ [dquote] @ ''}'' \<and>
   analyzePayload (Some (JObj [(''email'', JStr ''a@b.c''), (''password'', JStr tautology)]))
     ''sqlInjection'' = \<lparr>detected = False, score = 0, matches = []\<rparr> \<and>
   fst (inspectRequest demo_env
          (login_request (JObj [(''email'', JStr ''a@b.c''), (''password'', JStr tautology)]))
          production_waf) = NotBlocked \<and>
   fst (inspectRequest demo_env (login_request (JStr tautology)) production_waf) = NotBlocked"
  unfolding production_waf_def by code_simp

text \<open>
  The signature for a script tag is found in every string that contains the tag, so a
  string body with \<^verbatim>\<open><script>alert(1)</script>\<close> anywhere in it is always detected by the
  XSS scan.
\<close>

lemma analyzePayload_detected:
  assumes "\<not> falsy (Some p)" and "attackPatterns category = Some patterns"
  shows "detected (analyzePayload (Some p) category) \<longleftrightarrow>
           (\<exists>r \<in> set patterns. test r (payloadStr p))"
proof -
  have f: "fold (\<lambda>pattern (score, matches).
                   if test pattern s then (score + 1, matches @ [pattern]) else (score, matches))
             ps (n, ms) = (n + length (filter (\<lambda>r. test r s) ps), ms @ filter (\<lambda>r. test r s) ps)"
    for s ps n ms
    by (induction ps arbitrary: n ms) simp_all
  show ?thesis
    using assms by (simp add: analyzePayload_def f filter_empty_conv)
qed

lemma script_tag_always_detected:
  "detected (analyzePayload (Some (JStr (u @ ''<script>alert(1)</script>'' @ w))) ''xss'')"
proof -
  let ?r = "seqs [lit ''<script'', Star (NotChr (CHR ''>'')), lit ''>'']"
  have "match_prefix ?r ''<script>alert(1)</script>''"
    by code_simp
  then obtain a b where ab: "''<script>alert(1)</script>'' = a @ b" and a: "a \<in> lang ?r"
    unfolding match_prefix_lang by blast
  have "u @ ''<script>alert(1)</script>'' @ w = u @ a @ (b @ w)"
    using ab by (metis append.assoc)
  then have t: "test ?r (u @ ''<script>alert(1)</script>'' @ w)"
    unfolding test_lang using a by blast
  have p: "attackPatterns ''xss'' = Some xss_patterns"
    by (simp add: attackPatterns_def)
  have "?r \<in> set xss_patterns"
    by (simp add: xss_patterns_def)
  then show ?thesis
    using t analyzePayload_detected [OF _ p, of "JStr (u @ ''<script>alert(1)</script>'' @ w)"]
    by (auto simp: falsy_def payloadStr_def)
qed

text \<open>
  With a trailing SQL comment the same body is blocked as SQL injection; the script tag
  is blocked as XSS; a clean payload passes.
\<close>

lemma sql_comment_blocked:
  "fst (inspectRequest demo_env
          (login_request (JObj [(''password'', JStr (tautology @ ''--''))])) production_waf) =
     Blocked ''Potensi SQL Injection terdeteksi'' (Some ''SQL_INJECTION'')
       (Some [seqs [Chr squote, Star Dot, lit ''--'']])"
  unfolding production_waf_def by code_simp

lemma script_tag_blocked:
  "fst (inspectRequest demo_env
          (login_request (JObj [(''comment'', JStr ''<script>alert(1)</script>'')]))
          production_waf) =
     Blocked ''Potensi Cross-Site Scripting (XSS) terdeteksi'' (Some ''XSS'')
       (Some [seqs [lit ''<script'', Star (NotChr (CHR ''>'')), lit ''>''],
              seqs [lit ''alert('', Star (NotChr (CHR '')'')), lit '')'']])"
  unfolding production_waf_def by code_simp

lemma clean_payload_passes:
  "fst (inspectRequest demo_env
          (login_request (JObj [(''childId'', JStr ''550e8400-e29b-41d4-a716-446655440000''),
                                (''latitude'', JNum 123)]))
          production_waf) = NotBlocked"
  unfolding production_waf_def by code_simp


section \<open>Key manager (src/security/crypto.js, class KeyManager)\<close>

subsection \<open>Text and bytes\<close>

text \<open>
  \<^verbatim>\<open>decryptValue\<close> turns the decrypted bytes into a string with
  \<^verbatim>\<open>Buffer.toString('utf8')\<close>, and \<^verbatim>\<open>encrypt\<close> turns a string into bytes with
  \<^verbatim>\<open>Buffer.from(data, 'utf8')\<close>. A string is here the list of its code points. The encoder
  writes U+FFFD for a lone surrogate; the decoder reads well-formed UTF-8 and writes
  U+FFFD for each ill-formed part.
\<close>

type_synonym ustring = "nat list"

definition scalar :: "nat \<Rightarrow> bool" where
  "scalar c = (c < 0xD800 \<or> (0xE000 \<le> c \<and> c < 0x110000))"

definition utf8_char :: "nat \<Rightarrow> nat list" where
  "utf8_char c =
    (if \<not> scalar c then [0xEF, 0xBF, 0xBD]
     else if c < 0x80 then [c]
     else if c < 0x800 then [0xC0 + c div 64, 0x80 + c mod 64]
     else if c < 0x10000 then [0xE0 + c div 4096, 0x80 + c div 64 mod 64, 0x80 + c mod 64]
     else [0xF0 + c div 262144, 0x80 + c div 4096 mod 64, 0x80 + c div 64 mod 64, 0x80 + c mod 64])"

definition continuation :: "nat \<Rightarrow> nat \<Rightarrow> nat \<Rightarrow> bool" where
  "continuation lo hi b = (lo \<le> b \<and> b \<le> hi)"

fun utf8_decode :: "nat list \<Rightarrow> ustring" where
  "utf8_decode [] = []"
| "utf8_decode (b0 # bs) =
    (if b0 < 0x80 then b0 # utf8_decode bs
     else if 0xC2 \<le> b0 \<and> b0 \<le> 0xDF then
       (case bs of
          [] \<Rightarrow> [0xFFFD]
        | b1 # r1 \<Rightarrow>
            if continuation 0x80 0xBF b1
            then ((b0 - 0xC0) * 64 + (b1 - 0x80)) # utf8_decode r1
            else 0xFFFD # utf8_decode bs)
     else if 0xE0 \<le> b0 \<and> b0 \<le> 0xEF then
       (case bs of
          [] \<Rightarrow> [0xFFFD]
        | b1 # r1 \<Rightarrow>
            if continuation (if b0 = 0xE0 then 0xA0 else 0x80) (if b0 = 0xED then 0x9F else 0xBF) b1
            then
              (case r1 of
                 [] \<Rightarrow> [0xFFFD]
               | b2 # r2 \<Rightarrow>
                   if continuation 0x80 0xBF b2
                   then ((b0 - 0xE0) * 4096 + (b1 - 0x80) * 64 + (b2 - 0x80)) # utf8_decode r2
                   else 0xFFFD # utf8_decode r1)
            else 0xFFFD # utf8_decode bs)
     else if 0xF0 \<le> b0 \<and> b0 \<le> 0xF4 then
       (case bs of
          [] \<Rightarrow> [0xFFFD]
        | b1 # r1 \<Rightarrow>
            if continuation (if b0 = 0xF0 then 0x90 else 0x80) (if b0 = 0xF4 then 0x8F else 0xBF) b1
            then
              (case r1 of
                 [] \<Rightarrow> [0xFFFD]
               | b2 # r2 \<Rightarrow>
                   if continuation 0x80 0xBF b2
                   then
                     (case r2 of
                        [] \<Rightarrow> [0xFFFD]
                      | b3 # r3 \<Rightarrow>
                          if continuation 0x80 0xBF b3
                          then ((b0 - 0xF0) * 262144 + (b1 - 0x80) * 4096 + (b2 - 0x80) * 64
                                + (b3 - 0x80)) # utf8_decode r3
                          else 0xFFFD # utf8_decode r2)
                   else 0xFFFD # utf8_decode r1)
            else 0xFFFD # utf8_decode bs)
     else 0xFFFD # utf8_decode bs)"

definition Buffer_from_utf8 :: "ustring \<Rightarrow> byte list" where
  "Buffer_from_utf8 s = map of_nat (concat (map utf8_char s))"

definition toString_utf8 :: "byte list \<Rightarrow> ustring" where
  "toString_utf8 bs = utf8_decode (map unat bs)"

declare utf8_decode.simps(2) [simp del]

lemma decode1: "b0 < 0x80 \<Longrightarrow> utf8_decode (b0 # r) = b0 # utf8_decode r"
  by (simp add: utf8_decode.simps(2))

lemma decode2:
  "0xC2 \<le> b0 \<Longrightarrow> b0 \<le> 0xDF \<Longrightarrow> continuation 0x80 0xBF b1 \<Longrightarrow>
   utf8_decode (b0 # b1 # r) = ((b0 - 0xC0) * 64 + (b1 - 0x80)) # utf8_decode r"
  by (simp add: utf8_decode.simps(2))

lemma decode3:
  "0xE0 \<le> b0 \<Longrightarrow> b0 \<le> 0xEF \<Longrightarrow>
   continuation (if b0 = 0xE0 then 0xA0 else 0x80) (if b0 = 0xED then 0x9F else 0xBF) b1 \<Longrightarrow>
   continuation 0x80 0xBF b2 \<Longrightarrow>
   utf8_decode (b0 # b1 # b2 # r) =
     ((b0 - 0xE0) * 4096 + (b1 - 0x80) * 64 + (b2 - 0x80)) # utf8_decode r"
  by (simp add: utf8_decode.simps(2) split del: if_split cong: if_cong)

lemma decode4:
  "0xF0 \<le> b0 \<Longrightarrow> b0 \<le> 0xF4 \<Longrightarrow>
   continuation (if b0 = 0xF0 then 0x90 else 0x80) (if b0 = 0xF4 then 0x8F else 0xBF) b1 \<Longrightarrow>
   continuation 0x80 0xBF b2 \<Longrightarrow> continuation 0x80 0xBF b3 \<Longrightarrow>
   utf8_decode (b0 # b1 # b2 # b3 # r) =
     ((b0 - 0xF0) * 262144 + (b1 - 0x80) * 4096 + (b2 - 0x80) * 64 + (b3 - 0x80)) # utf8_decode r"
  by (simp add: utf8_decode.simps(2) split del: if_split cong: if_cong)


lemma split2: "(c::nat) div 64 * 64 + c mod 64 = c"
  by simp

lemma split3: "(c::nat) div 4096 * 4096 + c div 64 mod 64 * 64 + c mod 64 = c"
proof -
  define q where "q = c div 64"
  have d: "c div 4096 = q div 64"
    unfolding q_def by (simp add: div_mult2_eq [symmetric])
  have "q div 64 * 64 + q mod 64 = q" "q * 64 + c mod 64 = c"
    unfolding q_def by simp_all
  then show ?thesis
    unfolding d q_def [symmetric] by linarith
qed

lemma split4:
  "(c::nat) div 262144 * 262144 + c div 4096 mod 64 * 4096 + c div 64 mod 64 * 64 + c mod 64 = c"
proof -
  define q where "q = c div 4096"
  have d: "c div 262144 = q div 64"
    unfolding q_def by (simp add: div_mult2_eq [symmetric])
  have "q div 64 * 64 + q mod 64 = q"
    by simp
  then have "q div 64 * 262144 + q mod 64 * 4096 = q * 4096"
    by linarith
  then show ?thesis
    unfolding d using split3 [of c] unfolding q_def [symmetric] by linarith
qed

lemma lead3:
  assumes "0x800 \<le> (c::nat)" "c < 0x10000" "scalar c"
  shows "c div 4096 \<le> 15"
    and "c div 4096 = 0 \<Longrightarrow> 32 \<le> c div 64 mod 64"
    and "c div 4096 = 13 \<Longrightarrow> c div 64 mod 64 \<le> 31"
proof -
  show "c div 4096 \<le> 15"
    using assms(2) by simp
  show "32 \<le> c div 64 mod 64" if "c div 4096 = 0"
  proof -
    have "c < 4096" using that by simp
    then have "c div 64 < 64" by simp
    moreover have "32 \<le> c div 64" using assms(1) by simp
    ultimately show ?thesis by simp
  qed
  show "c div 64 mod 64 \<le> 31" if "c div 4096 = 13"
  proof -
    have lo: "13 * 4096 \<le> c"
      using that div_mult_mod_eq [of c 4096] by linarith
    have "c < 14 * 4096"
      using that div_mult_mod_eq [of c 4096] mod_less_divisor [of 4096 c] by linarith
    then have "c < 0xD800"
      using assms(3) by (simp add: scalar_def)
    then have hi: "c div 64 < 864" by simp
    have "c div 64 div 64 = 13"
      using that by (simp add: div_mult2_eq [symmetric])
    then have "c div 64 mod 64 = c div 64 - 13 * 64"
      using div_mult_mod_eq [of "c div 64" 64] by linarith
    then show ?thesis using hi by simp
  qed
qed

lemma lead4:
  assumes "0x10000 \<le> (c::nat)" "c < 0x110000"
  shows "c div 262144 \<le> 4"
    and "c div 262144 = 0 \<Longrightarrow> 16 \<le> c div 4096 mod 64"
    and "c div 262144 = 4 \<Longrightarrow> c div 4096 mod 64 \<le> 15"
proof -
  show "c div 262144 \<le> 4"
    using assms(2) by simp
  show "16 \<le> c div 4096 mod 64" if "c div 262144 = 0"
  proof -
    have "c < 262144" using that by simp
    then have "c div 4096 < 64" by simp
    moreover have "16 \<le> c div 4096" using assms(1) by simp
    ultimately show ?thesis by simp
  qed
  show "c div 4096 mod 64 \<le> 15" if "c div 262144 = 4"
  proof -
    have hi: "c div 4096 < 272" using assms(2) by simp
    have "c div 4096 div 64 = 4"
      using that by (simp add: div_mult2_eq [symmetric])
    then have "c div 4096 mod 64 = c div 4096 - 4 * 64"
      using div_mult_mod_eq [of "c div 4096" 64] by linarith
    then show ?thesis using hi by simp
  qed
qed


lemma utf8_char_decode:
  assumes "scalar c"
  shows "utf8_decode (utf8_char c @ rest) = c # utf8_decode rest"
proof -
  have "c < 0x80 \<or> (0x80 \<le> c \<and> c < 0x800) \<or> (0x800 \<le> c \<and> c < 0x10000) \<or>
        (0x10000 \<le> c \<and> c < 0x110000)"
    using assms unfolding scalar_def by linarith
  then consider "c < 0x80" | "0x80 \<le> c \<and> c < 0x800" | "0x800 \<le> c \<and> c < 0x10000"
    | "0x10000 \<le> c \<and> c < 0x110000"
    by blast
  then show ?thesis
  proof cases
    case 1
    then show ?thesis
      using assms by (simp add: utf8_char_def decode1)
  next
    case 2
    then have enc: "utf8_char c = [0xC0 + c div 64, 0x80 + c mod 64]"
      using assms by (simp add: utf8_char_def)
    have "2 \<le> c div 64" "c div 64 < 32"
      using 2 by (simp_all add: less_eq_div_iff_mult_less_eq div_less_iff_less_mult)
    then have "utf8_decode ((0xC0 + c div 64) # (0x80 + c mod 64) # rest) =
                 ((0xC0 + c div 64 - 0xC0) * 64 + (0x80 + c mod 64 - 0x80)) # utf8_decode rest"
      by (intro decode2) (simp_all add: continuation_def)
    then show ?thesis
      unfolding enc by simp
  next
    case 3
    then have enc: "utf8_char c = [0xE0 + c div 4096, 0x80 + c div 64 mod 64, 0x80 + c mod 64]"
      using assms by (simp add: utf8_char_def)
    note l = lead3 [of c]
    have "utf8_decode ((0xE0 + c div 4096) # (0x80 + c div 64 mod 64) # (0x80 + c mod 64) # rest) =
            ((0xE0 + c div 4096 - 0xE0) * 4096 + (0x80 + c div 64 mod 64 - 0x80) * 64 +
             (0x80 + c mod 64 - 0x80)) # utf8_decode rest"
    proof (intro decode3)
      show "0xE0 + c div 4096 \<le> 0xEF"
        using l(1) 3 assms by simp
      show "continuation (if 0xE0 + c div 4096 = 0xE0 then 0xA0 else 0x80)
              (if 0xE0 + c div 4096 = 0xED then 0x9F else 0xBF) (0x80 + c div 64 mod 64)"
        using l(2,3) 3 assms mod_less_divisor [of 64 "c div 64"]
        by (auto simp: continuation_def simp del: mod_less_divisor)
      show "continuation 0x80 0xBF (0x80 + c mod 64)"
        using mod_less_divisor [of 64 c] by (simp add: continuation_def del: mod_less_divisor)
    qed simp
    then show ?thesis
      unfolding enc using split3 [of c] by simp
  next
    case 4
    then have enc: "utf8_char c =
        [0xF0 + c div 262144, 0x80 + c div 4096 mod 64, 0x80 + c div 64 mod 64, 0x80 + c mod 64]"
      using assms by (simp add: utf8_char_def)
    note l = lead4 [of c]
    have "utf8_decode ((0xF0 + c div 262144) # (0x80 + c div 4096 mod 64) #
                       (0x80 + c div 64 mod 64) # (0x80 + c mod 64) # rest) =
            ((0xF0 + c div 262144 - 0xF0) * 262144 + (0x80 + c div 4096 mod 64 - 0x80) * 4096 +
             (0x80 + c div 64 mod 64 - 0x80) * 64 + (0x80 + c mod 64 - 0x80)) # utf8_decode rest"
    proof (intro decode4)
      show "0xF0 + c div 262144 \<le> 0xF4"
        using l(1) 4 by simp
      show "continuation (if 0xF0 + c div 262144 = 0xF0 then 0x90 else 0x80)
              (if 0xF0 + c div 262144 = 0xF4 then 0x8F else 0xBF) (0x80 + c div 4096 mod 64)"
        using l(2,3) 4 mod_less_divisor [of 64 "c div 4096"]
        by (auto simp: continuation_def simp del: mod_less_divisor)
      show "continuation 0x80 0xBF (0x80 + c div 64 mod 64)"
        using mod_less_divisor [of 64 "c div 64"] by (simp add: continuation_def del: mod_less_divisor)
      show "continuation 0x80 0xBF (0x80 + c mod 64)"
        using mod_less_divisor [of 64 c] by (simp add: continuation_def del: mod_less_divisor)
    qed simp
    then show ?thesis
      unfolding enc using split4 [of c] by simp
  qed
qed

lemma utf8_decode_encode:
  "\<forall>c \<in> set s. scalar c \<Longrightarrow> utf8_decode (concat (map utf8_char s)) = s"
  by (induction s) (simp_all add: utf8_char_decode)

lemma utf8_char_bytes: "\<forall>b \<in> set (utf8_char c). b < 256"
proof -
  have "c mod 64 < 64" "c div 64 mod 64 < 64" "c div 4096 mod 64 < 64"
    by simp_all
  moreover have "c < 0x800 \<Longrightarrow> c div 64 < 32" "c < 0x10000 \<Longrightarrow> c div 4096 < 16"
    "scalar c \<Longrightarrow> c div 262144 < 5"
    by (simp_all add: scalar_def) linarith
  ultimately show ?thesis
    unfolding utf8_char_def by (auto simp del: mod_less_divisor)
qed

lemma toString_Buffer_from:
  assumes "\<forall>c \<in> set s. scalar c"
  shows "toString_utf8 (Buffer_from_utf8 s) = s"
proof -
  have "\<forall>b \<in> set (concat (map utf8_char s)). b < 256"
    using utf8_char_bytes by auto
  then have "map (\<lambda>b. unat (of_nat b :: byte)) (concat (map utf8_char s)) = concat (map utf8_char s)"
    by (intro map_idI) (auto simp: unat_of_nat)
  then have "map unat (map (of_nat :: nat \<Rightarrow> byte) (concat (map utf8_char s))) = concat (map utf8_char s)"
    by (simp add: comp_def)
  then show ?thesis
    using assms by (simp add: toString_utf8_def Buffer_from_utf8_def utf8_decode_encode del: map_map)
qed


subsection \<open>Base64\<close>

text \<open>
  \<^verbatim>\<open>Buffer.toString('base64')\<close> writes four characters for three bytes and pads the last
  group with \<^verbatim>\<open>=\<close>. \<^verbatim>\<open>Buffer.from(s, 'base64')\<close> is lenient: it reads both the standard and
  the URL-safe alphabet, skips every other character, stops at the first \<^verbatim>\<open>=\<close>, and
  keeps the whole bytes of the bits read, so the unused low bits of the last character
  are ignored.
\<close>

definition base64_alphabet :: string where
  "base64_alphabet = ''ABCDEFGHIJKLMNOPQRSTUVWXYZabcdefghijklmnopqrstuvwxyz0123456789+/''"

definition base64_digit :: "nat \<Rightarrow> char" where
  "base64_digit n = base64_alphabet ! n"

fun base64_groups :: "nat list \<Rightarrow> string" where
  "base64_groups (a # b # c # rest) =
     [base64_digit (a div 4), base64_digit (a mod 4 * 16 + b div 16),
      base64_digit (b mod 16 * 4 + c div 64), base64_digit (c mod 64)] @ base64_groups rest"
| "base64_groups [a, b] =
     [base64_digit (a div 4), base64_digit (a mod 4 * 16 + b div 16),
      base64_digit (b mod 16 * 4), CHR ''='']"
| "base64_groups [a] =
     [base64_digit (a div 4), base64_digit (a mod 4 * 16), CHR ''='', CHR ''='']"
| "base64_groups [] = []"

definition base64 :: "byte list \<Rightarrow> string" where
  "base64 bs = base64_groups (map unat bs)"

definition unbase64_digit :: "char \<Rightarrow> nat option" where
  "unbase64_digit c =
    (if c = CHR ''-'' then Some 62
     else if c = CHR ''_'' then Some 63
     else map_of (zip base64_alphabet [0..<64]) c)"

fun sextets :: "string \<Rightarrow> nat list" where
  "sextets [] = []"
| "sextets (c # cs) =
    (if c = CHR ''='' then []
     else case unbase64_digit c of
            Some v \<Rightarrow> v # sextets cs
          | None \<Rightarrow> sextets cs)"

fun octets :: "nat list \<Rightarrow> nat list" where
  "octets (a # b # c # d # rest) =
     [a * 4 + b div 16, b mod 16 * 16 + c div 4, c mod 4 * 64 + d] @ octets rest"
| "octets [a, b, c] = [a * 4 + b div 16, b mod 16 * 16 + c div 4]"
| "octets [a, b] = [a * 4 + b div 16]"
| "octets rest = []"

definition unbase64 :: "string \<Rightarrow> byte list" where
  "unbase64 s = map of_nat (octets (sextets s))"

lemma base64_digits:
  "\<forall>n \<in> set [0..<64]. unbase64_digit (base64_digit n) = Some n \<and> base64_digit n \<noteq> CHR ''=''"
  by code_simp

lemma sextets_digit: "n < 64 \<Longrightarrow> sextets (base64_digit n # cs) = n # sextets cs"
  using base64_digits by simp

lemma pack_div: "y < k \<Longrightarrow> (x * k + y) div k = (x::nat)"
  by simp

lemma pack_mod: "y < k \<Longrightarrow> (x * k + y) mod k = (y::nat)"
  by simp

lemma byte_parts:
  assumes "b < (256::nat)"
  shows "b div 4 < 64" "b div 16 < 16" "b div 64 < 4"
  using assms by (simp_all add: div_less_iff_less_mult)

lemma full_group:
  assumes lt: "a < 256" "b < 256" "c < 256"
  shows "octets (sextets (base64_digit (a div 4) # base64_digit (a mod 4 * 16 + b div 16) #
           base64_digit (b mod 16 * 4 + c div 64) # base64_digit (c mod 64) # cs)) =
         [a, b, c] @ octets (sextets cs)"
proof -
  note p = byte_parts [OF lt(1)] byte_parts [OF lt(2)] byte_parts [OF lt(3)]
  have m: "a mod 4 < 4" "b mod 16 < 16" "c mod 64 < 64"
    by simp_all
  have d: "a div 4 < 64" "a mod 4 * 16 + b div 16 < 64" "b mod 16 * 4 + c div 64 < 64" "c mod 64 < 64"
    using p m by linarith+
  have e1: "a div 4 * 4 + (a mod 4 * 16 + b div 16) div 16 = a"
    using p by (simp add: pack_div)
  have e2: "(a mod 4 * 16 + b div 16) mod 16 * 16 + (b mod 16 * 4 + c div 64) div 4 = b"
    using p by (simp add: pack_div pack_mod)
  have e3: "(b mod 16 * 4 + c div 64) mod 4 * 64 + c mod 64 = c"
    using p by (simp add: pack_mod)
  show ?thesis
    by (simp only: sextets_digit [OF d(1)] sextets_digit [OF d(2)] sextets_digit [OF d(3)]
          sextets_digit [OF d(4)] octets.simps e1 e2 e3)
qed

lemma last_group:
  assumes lt: "a < 256" and k: "k < 16"
  shows "octets (sextets [base64_digit (a div 4), base64_digit (a mod 4 * 16 + k), CHR ''='', CHR ''='']) =
         [a]"
proof -
  note p = byte_parts [OF lt]
  have m: "a mod 4 < 4"
    by simp
  have d: "a div 4 < 64" "a mod 4 * 16 + k < 64"
    using p m k by linarith+
  have e1: "a div 4 * 4 + (a mod 4 * 16 + k) div 16 = a"
    using k by (simp add: pack_div)
  have "sextets [base64_digit (a div 4), base64_digit (a mod 4 * 16 + k), CHR ''='', CHR ''=''] =
          [a div 4, a mod 4 * 16 + k]"
    by (simp only: sextets_digit [OF d(1)] sextets_digit [OF d(2)]) simp
  then show ?thesis
    by (simp only: octets.simps e1)
qed

lemma octets_sextets_groups:
  "\<forall>x \<in> set xs. x < 256 \<Longrightarrow> octets (sextets (base64_groups xs)) = xs"
proof (induction xs rule: base64_groups.induct)
  case (1 a b c rest)
  then show ?case
    by (simp add: full_group del: sextets.simps)
next
  case (2 a b)
  then have lt: "a < 256" "b < 256"
    by simp_all
  note p = byte_parts [OF lt(1)] byte_parts [OF lt(2)]
  have m: "a mod 4 < 4" "b mod 16 < 16"
    by simp_all
  have d: "a div 4 < 64" "a mod 4 * 16 + b div 16 < 64" "b mod 16 * 4 < 64"
    using p m by linarith+
  have e1: "a div 4 * 4 + (a mod 4 * 16 + b div 16) div 16 = a"
    using p by (simp add: pack_div)
  have e2: "(a mod 4 * 16 + b div 16) mod 16 * 16 + (b mod 16 * 4) div 4 = b"
    using p by (simp add: pack_mod)
  have "sextets (base64_groups [a, b]) = [a div 4, a mod 4 * 16 + b div 16, b mod 16 * 4]"
    by (simp only: base64_groups.simps sextets_digit [OF d(1)] sextets_digit [OF d(2)]
          sextets_digit [OF d(3)]) simp
  then show ?case
    by (simp only: octets.simps e1 e2)
next
  case (3 a)
  then show ?case
    using last_group [of a 0] by simp
next
  case 4
  then show ?case by simp
qed

lemma full_groups:
  assumes "length xs mod 3 = 0" and "\<forall>x \<in> set xs. x < 256"
  shows "base64_groups (xs @ ys) = base64_groups xs @ base64_groups ys"
    and "octets (sextets (base64_groups xs @ cs)) = xs @ octets (sextets cs)"
  using assms
proof (induction xs rule: base64_groups.induct)
  case (1 a b c rest)
  {
    case 1
    then show ?case using "1.IH" by simp
  next
    case 2
    then show ?case using "1.IH" by (simp add: full_group del: sextets.simps)
  }
qed simp_all

lemma unat_bytes: "\<forall>x \<in> set (map unat (bs :: byte list)). x < 256"
  using unsigned_less [where 'b = 8] by auto

lemma unbase64_base64: "unbase64 (base64 bs) = bs"
proof -
  have "octets (sextets (base64_groups (map unat bs))) = map unat bs"
    using unat_bytes by (rule octets_sextets_groups)
  then show ?thesis
    by (simp add: unbase64_def base64_def comp_def)
qed

text \<open>
  The last character before the padding of a value of \<open>3n + 1\<close> bytes, such as a 16-byte IV
  or tag, carries two bits of the last byte; the decoder ignores its four low bits, so
  that sixteen characters stand for the same byte there.
\<close>

lemma spare_bits:
  assumes n: "length bs mod 3 = 0" and k: "k < 16"
  shows "base64 (bs @ [a]) =
           base64 bs @ [base64_digit (unat a div 4), base64_digit (unat a mod 4 * 16), CHR ''='', CHR ''='']"
    and "unbase64 (base64 bs @ [base64_digit (unat a div 4), base64_digit (unat a mod 4 * 16 + k),
           CHR ''='', CHR ''='']) = bs @ [a]"
    and "0 < k \<Longrightarrow> base64_digit (unat a mod 4 * 16 + k) \<noteq> base64_digit (unat a mod 4 * 16)"
proof -
  have len: "length (map unat bs) mod 3 = 0"
    using n by simp
  have a: "unat a < 256"
    using unsigned_less [of a] by simp
  show "base64 (bs @ [a]) =
          base64 bs @ [base64_digit (unat a div 4), base64_digit (unat a mod 4 * 16), CHR ''='', CHR ''='']"
    using full_groups(1) [OF len unat_bytes, of "[unat a]"] by (simp add: base64_def)
  have "octets (sextets (base64_groups (map unat bs) @
          [base64_digit (unat a div 4), base64_digit (unat a mod 4 * 16 + k), CHR ''='', CHR ''=''])) =
        map unat bs @ [unat a]"
    using full_groups(2) [OF len unat_bytes] last_group [OF a k] by simp
  then show "unbase64 (base64 bs @ [base64_digit (unat a div 4), base64_digit (unat a mod 4 * 16 + k),
           CHR ''='', CHR ''='']) = bs @ [a]"
    by (simp add: unbase64_def base64_def comp_def)
  have m: "unat a mod 4 < 4"
    by simp
  have "unat a mod 4 * 16 + k < 64" "unat a mod 4 * 16 < 64"
    using m k by linarith+
  then have "unbase64_digit (base64_digit (unat a mod 4 * 16 + k)) = Some (unat a mod 4 * 16 + k)"
    "unbase64_digit (base64_digit (unat a mod 4 * 16)) = Some (unat a mod 4 * 16)"
    using base64_digits by simp_all
  then show "base64_digit (unat a mod 4 * 16 + k) \<noteq> base64_digit (unat a mod 4 * 16)" if "0 < k"
    using that by (metis add_cancel_right_right less_numeral_extra(3) option.inject)
qed


subsection \<open>Encryption and decryption\<close>

text \<open>
  The cipher is \<^verbatim>\<open>aes-256-gcm\<close> of Node's \<^verbatim>\<open>crypto\<close>; it and JSON are parameters of the
  model. \<open>gcm_encrypt key iv aad plaintext\<close> gives the ciphertext and the authentication
  tag, or nothing when \<^verbatim>\<open>createCipheriv\<close> throws; \<open>gcm_decrypt key iv tag aad ciphertext\<close>
  gives the plaintext, or nothing when \<^verbatim>\<open>createDecipheriv\<close>, \<^verbatim>\<open>setAuthTag\<close> or \<^verbatim>\<open>final()\<close>
  throws. The 16 bytes of \<^verbatim>\<open>crypto.randomBytes\<close> are the input \<open>iv\<close>. Every exception inside
  \<^verbatim>\<open>encrypt\<close> and \<^verbatim>\<open>decrypt\<close> is caught and thrown again as one error; the \<^verbatim>\<open>SyntaxError\<close>
  of \<^verbatim>\<open>JSON.parse\<close> in \<^verbatim>\<open>decryptValue\<close> is not caught.
\<close>

definition hexValue :: "char \<Rightarrow> nat option" where
  "hexValue c =
     map_of (zip ''0123456789abcdefABCDEF''
                 [0, 1, 2, 3, 4, 5, 6, 7, 8, 9, 10, 11, 12, 13, 14, 15, 10, 11, 12, 13, 14, 15]) c"

fun fromHex :: "string \<Rightarrow> byte list" where
  "fromHex (a # b # rest) =
     (case (hexValue a, hexValue b) of
        (Some x, Some y) \<Rightarrow> of_nat (16 * x + y) # fromHex rest
      | _ \<Rightarrow> [])"
| "fromHex rest = []"

record key_data =
  key_id :: string
  key_value :: string
  key_createdAt :: int
  key_rotatedAt :: "int option"
  key_algorithm :: string
  key_length :: nat

record key_manager =
  encryptionAlgorithm :: string
  keys_encryption :: "key_data option"
  keys_hmac :: "key_data option"
  keys_pbkdf :: "key_data option"

record encrypted_data =
  ed_data :: string
  ed_iv :: string
  ed_authTag :: string
  ed_keyId :: string
  ed_algorithm :: string
  ed_hasAssociatedData :: bool

record crypto_library =
  gcm_encrypt :: "byte list \<Rightarrow> byte list \<Rightarrow> byte list \<Rightarrow> byte list \<Rightarrow> (byte list \<times> byte list) option"
  gcm_decrypt :: "byte list \<Rightarrow> byte list \<Rightarrow> byte list \<Rightarrow> byte list \<Rightarrow> byte list \<Rightarrow> byte list option"
  JSON_stringify :: "encrypted_data \<Rightarrow> string"
  JSON_parse :: "string \<Rightarrow> encrypted_data option"

datatype plain = Text ustring | Bytes "byte list"

datatype crypto_error = Encryption_failed | Decryption_failed | SyntaxError

definition aad_of :: "(string \<times> json) list \<Rightarrow> byte list" where
  "aad_of associatedData =
    (if length associatedData > 0
     then Buffer_from_utf8 (map of_char (stringify (JObj associatedData)))
     else [])"

definition plain_bytes :: "plain \<Rightarrow> byte list" where
  "plain_bytes d = (case d of Text s \<Rightarrow> Buffer_from_utf8 s | Bytes b \<Rightarrow> b)"

definition encrypt ::
  "crypto_library \<Rightarrow> byte list \<Rightarrow> key_manager \<Rightarrow> plain \<Rightarrow> (string \<times> json) list
     \<Rightarrow> crypto_error + encrypted_data" where
  "encrypt L iv km d associatedData =
    (case keys_encryption km of
       None \<Rightarrow> Inl Encryption_failed
     | Some key \<Rightarrow>
         let keyBuffer = fromHex (key_value key);
             dataBuffer = plain_bytes d
         in case gcm_encrypt L keyBuffer iv (aad_of associatedData) dataBuffer of
              None \<Rightarrow> Inl Encryption_failed
            | Some (encrypted, authTag) \<Rightarrow>
                Inr \<lparr>ed_data = base64 encrypted, ed_iv = base64 iv,
                     ed_authTag = base64 authTag, ed_keyId = key_id key,
                     ed_algorithm = encryptionAlgorithm km, ed_hasAssociatedData = True\<rparr>)"

definition decrypt ::
  "crypto_library \<Rightarrow> key_manager \<Rightarrow> encrypted_data \<Rightarrow> (string \<times> json) list
     \<Rightarrow> crypto_error + byte list" where
  "decrypt L km encryptedData associatedData =
    (if ed_algorithm encryptedData \<noteq> encryptionAlgorithm km then Inl Decryption_failed
     else
       case keys_encryption km of
         None \<Rightarrow> Inl Decryption_failed
       | Some key \<Rightarrow>
           let keyBuffer = fromHex (key_value key) in
           case gcm_decrypt L keyBuffer (unbase64 (ed_iv encryptedData))
                  (unbase64 (ed_authTag encryptedData)) (aad_of associatedData)
                  (unbase64 (ed_data encryptedData)) of
             None \<Rightarrow> Inl Decryption_failed
           | Some decrypted \<Rightarrow> Inr decrypted)"

definition encryptValue ::
  "crypto_library \<Rightarrow> byte list \<Rightarrow> key_manager \<Rightarrow> plain \<Rightarrow> (string \<times> json) list
     \<Rightarrow> crypto_error + string" where
  "encryptValue L iv km v ctx =
    (case encrypt L iv km v ctx of
       Inl e \<Rightarrow> Inl e
     | Inr encrypted \<Rightarrow> Inr (JSON_stringify L encrypted))"

definition decryptValue ::
  "crypto_library \<Rightarrow> key_manager \<Rightarrow> string \<Rightarrow> (string \<times> json) list \<Rightarrow> crypto_error + ustring" where
  "decryptValue L km encryptedValue ctx =
    (case JSON_parse L encryptedValue of
       None \<Rightarrow> Inl SyntaxError
     | Some encrypted \<Rightarrow>
         (case decrypt L km encrypted ctx of
            Inl e \<Rightarrow> Inl e
          | Inr decrypted \<Rightarrow> Inr (toString_utf8 decrypted)))"

text \<open>\<^verbatim>\<open>decryptValue(encryptValue(x, ctx), ctx)\<close> under one key manager.\<close>

definition round_trip ::
  "crypto_library \<Rightarrow> byte list \<Rightarrow> key_manager \<Rightarrow> plain \<Rightarrow> (string \<times> json) list
     \<Rightarrow> crypto_error + ustring" where
  "round_trip L iv km x ctx =
    (case encryptValue L iv km x ctx of
       Inl e \<Rightarrow> Inl e
     | Inr v \<Rightarrow> decryptValue L km v ctx)"


definition gcm_round_trip :: "crypto_library \<Rightarrow> bool" where
  "gcm_round_trip L =
    (\<forall>key iv aad p. length key = 32 \<longrightarrow>
       (\<exists>c t. gcm_encrypt L key iv aad p = Some (c, t) \<and> gcm_decrypt L key iv t aad c = Some p))"


definition wire_round_trip :: "crypto_library \<Rightarrow> bool" where
  "wire_round_trip L = (\<forall>e. JSON_parse L (JSON_stringify L e) = Some e)"




lemma encrypt_Inr:
  assumes "encrypt L iv km x ctx = Inr e"
  shows "\<exists>key c t. keys_encryption km = Some key \<and>
           gcm_encrypt L (fromHex (key_value key)) iv (aad_of ctx) (plain_bytes x) = Some (c, t) \<and>
           e = \<lparr>ed_data = base64 c, ed_iv = base64 iv, ed_authTag = base64 t,
                ed_keyId = key_id key, ed_algorithm = encryptionAlgorithm km,
                ed_hasAssociatedData = True\<rparr>"
  using assms by (auto simp: encrypt_def Let_def split: option.splits)


lemma unparsable_value_fails:
  "JSON_parse L v' = None \<Longrightarrow> decryptValue L km v' ctx = Inl SyntaxError"
  by (simp add: decryptValue_def)

text \<open>
  Hence every sealed value has modified forms that are accepted: in the text of the IV,
  the last character before the padding can be replaced by any of fifteen others, and
  \<^verbatim>\<open>decryptValue\<close> returns the plaintext all the same.
\<close>

lemma iv_spare_bits_accepted:
  assumes gcm: "gcm_round_trip L" and wire: "wire_round_trip L"
    and key: "keys_encryption km = Some key" and len: "length (fromHex (key_value key)) = 32"
    and iv: "length bs = 15" and k: "0 < k" "k < 16"
    and enc: "encrypt L (bs @ [a]) km x ctx = Inr e"
    and s: "s = base64 bs @ [base64_digit (unat a div 4), base64_digit (unat a mod 4 * 16 + k),
                  CHR ''='', CHR ''='']"
  shows "ed_iv e = base64 bs @ [base64_digit (unat a div 4), base64_digit (unat a mod 4 * 16),
                     CHR ''='', CHR ''='']"
    and "s \<noteq> ed_iv e"
    and "decryptValue L km (JSON_stringify L (e\<lparr>ed_iv := s\<rparr>)) ctx = Inr (toString_utf8 (plain_bytes x))"
proof -
  have n: "length bs mod 3 = 0"
    using iv by simp
  obtain c t where g: "gcm_encrypt L (fromHex (key_value key)) (bs @ [a]) (aad_of ctx) (plain_bytes x) =
      Some (c, t)"
    and e: "e = \<lparr>ed_data = base64 c, ed_iv = base64 (bs @ [a]), ed_authTag = base64 t,
                ed_keyId = key_id key, ed_algorithm = encryptionAlgorithm km,
                ed_hasAssociatedData = True\<rparr>"
    using encrypt_Inr [OF enc] key by auto
  have d: "gcm_decrypt L (fromHex (key_value key)) (bs @ [a]) t (aad_of ctx) c = Some (plain_bytes x)"
  proof -
    obtain c' t' where
      "gcm_encrypt L (fromHex (key_value key)) (bs @ [a]) (aad_of ctx) (plain_bytes x) = Some (c', t')"
      and "gcm_decrypt L (fromHex (key_value key)) (bs @ [a]) t' (aad_of ctx) c' = Some (plain_bytes x)"
      using gcm len unfolding gcm_round_trip_def by blast
    then show ?thesis
      using g by simp
  qed
  show iv_text: "ed_iv e = base64 bs @ [base64_digit (unat a div 4), base64_digit (unat a mod 4 * 16),
                     CHR ''='', CHR ''='']"
    unfolding e using spare_bits(1) [OF n k(2)] by simp
  show "s \<noteq> ed_iv e"
    unfolding iv_text s using spare_bits(3) [OF n k(2) k(1)] by simp
  have "unbase64 s = bs @ [a]"
    unfolding s by (rule spare_bits(2) [OF n k(2)])
  then show "decryptValue L km (JSON_stringify L (e\<lparr>ed_iv := s\<rparr>)) ctx =
               Inr (toString_utf8 (plain_bytes x))"
    using d key wire
    by (simp add: decryptValue_def decrypt_def wire_round_trip_def e unbase64_base64)
qed

lemma round_trip_decodes:
  assumes gcm: "gcm_round_trip L" and wire: "wire_round_trip L"
    and key: "keys_encryption km = Some key" and len: "length (fromHex (key_value key)) = 32"
  shows "round_trip L iv km x ctx = Inr (toString_utf8 (plain_bytes x))"
proof -
  obtain c t where g: "gcm_encrypt L (fromHex (key_value key)) iv (aad_of ctx) (plain_bytes x) = Some (c, t)"
    and d: "gcm_decrypt L (fromHex (key_value key)) iv t (aad_of ctx) c = Some (plain_bytes x)"
    using gcm len unfolding gcm_round_trip_def by blast
  show ?thesis
    using g d key wire
    by (simp add: round_trip_def encryptValue_def decryptValue_def encrypt_def decrypt_def
          wire_round_trip_def unbase64_base64)
qed

text \<open>
  Claim C3, as amended. With the key unchanged and the same context,
  \<^verbatim>\<open>decryptValue(encryptValue(x))\<close> is the UTF-8 decoding of the bytes of \<open>x\<close>: it is \<open>x\<close>
  for every well-formed string \<open>x\<close>, and the string \<open>s\<close> for the bytes of a well-formed
  string \<open>s\<close>.
\<close>

theorem utf8_round_trip:
  assumes gcm: "gcm_round_trip L" and wire: "wire_round_trip L"
    and key: "keys_encryption km = Some key" and len: "length (fromHex (key_value key)) = 32"
  shows "round_trip L iv km x ctx = Inr (toString_utf8 (plain_bytes x)) \<and>
         ((\<forall>c \<in> set s. scalar c) \<longrightarrow>
            round_trip L iv km (Text s) ctx = Inr s \<and>
            round_trip L iv km (Bytes (Buffer_from_utf8 s)) ctx = Inr s)"
  using round_trip_decodes [OF assms, of iv x ctx] round_trip_decodes [OF assms, of iv "Text s" ctx]
    round_trip_decodes [OF assms, of iv "Bytes (Buffer_from_utf8 s)" ctx]
  by (simp add: plain_bytes_def toString_Buffer_from)

subsection \<open>A stand-in library for concrete runs\<close>

text \<open>
  The stand-in cipher adds one to every byte; its tag has 16 bytes, each the sum of the
  bytes of key, nonce, associated data and ciphertext plus its own index. JSON is replaced
  by length-prefixed fields. The stand-in meets the three requirements above.
\<close>

definition put_field :: "string \<Rightarrow> string" where
  "put_field s = replicate (length s) (CHR ''1'') @ CHR ''0'' # s"

fun get_field :: "nat \<Rightarrow> string \<Rightarrow> (string \<times> string) option" where
  "get_field n [] = None"
| "get_field n (c # cs) =
     (if c = CHR ''1'' then get_field (Suc n) cs
      else if c = CHR ''0'' \<and> n \<le> length cs then Some (take n cs, drop n cs)
      else None)"

definition demo_stringify :: "encrypted_data \<Rightarrow> string" where
  "demo_stringify e =
     put_field (ed_data e) @ put_field (ed_iv e) @ put_field (ed_authTag e) @
     put_field (ed_keyId e) @ put_field (ed_algorithm e) @
     (if ed_hasAssociatedData e then ''t'' else ''f'')"

definition demo_parse :: "string \<Rightarrow> encrypted_data option" where
  "demo_parse s =
    (case get_field 0 s of None \<Rightarrow> None | Some (d, r1) \<Rightarrow>
     case get_field 0 r1 of None \<Rightarrow> None | Some (i, r2) \<Rightarrow>
     case get_field 0 r2 of None \<Rightarrow> None | Some (t, r3) \<Rightarrow>
     case get_field 0 r3 of None \<Rightarrow> None | Some (k, r4) \<Rightarrow>
     case get_field 0 r4 of None \<Rightarrow> None | Some (a, r5) \<Rightarrow>
       Some \<lparr>ed_data = d, ed_iv = i, ed_authTag = t, ed_keyId = k, ed_algorithm = a,
             ed_hasAssociatedData = (r5 = ''t'')\<rparr>)"

definition demo_tag :: "byte list \<Rightarrow> byte list \<Rightarrow> byte list \<Rightarrow> byte list \<Rightarrow> byte list" where
  "demo_tag key iv aad c = map (\<lambda>i. sum_list (key @ iv @ aad @ c) + of_nat i) [0..<16]"

definition demo_cipher :: crypto_library where
  "demo_cipher =
    \<lparr>gcm_encrypt = (\<lambda>key iv aad p.
        if length key = 32
        then Some (map (\<lambda>b. b + 1) p, demo_tag key iv aad (map (\<lambda>b. b + 1) p))
        else None),
     gcm_decrypt = (\<lambda>key iv t aad c.
        if length key = 32 \<and> t = demo_tag key iv aad c then Some (map (\<lambda>b. b - 1) c) else None),
     JSON_stringify = demo_stringify,
     JSON_parse = demo_parse\<rparr>"

lemma get_field_replicate:
  "get_field n (replicate m (CHR ''1'') @ CHR ''0'' # s) =
     (if n + m \<le> length s then Some (take (n + m) s, drop (n + m) s) else None)"
  by (induction m arbitrary: n) simp_all

lemma get_put_field: "get_field 0 (put_field s @ rest) = Some (s, rest)"
  using get_field_replicate [of 0 "length s" "s @ rest"] by (simp add: put_field_def)

lemma demo_parse_stringify: "demo_parse (demo_stringify e) = Some e"
  by (cases e) (simp add: demo_parse_def demo_stringify_def get_put_field)

lemma hexValue_hexDigit: "n < 16 \<Longrightarrow> hexValue (hexDigit n) = Some n"
proof -
  have "\<forall>n \<in> set [0..<16]. hexValue (hexDigit n) = Some n"
    by code_simp
  then show "n < 16 \<Longrightarrow> hexValue (hexDigit n) = Some n"
    by simp
qed

lemma fromHex_toHex: "fromHex (toHex bs) = bs"
proof (induction bs)
  case Nil
  then show ?case by (simp add: toHex_def)
next
  case (Cons b bs)
  have "unat b < 256"
    using unsigned_less [of b] by simp
  then have hi: "unat b div 16 < 16" and lo: "unat b mod 16 < 16"
    by simp_all
  have "(of_nat (16 * (unat b div 16) + unat b mod 16) :: byte) = b"
    by simp
  then show ?case
    using Cons hexValue_hexDigit [OF hi] hexValue_hexDigit [OF lo]
    by (simp add: toHex_def hexByte_def)
qed




lemma demo_wire: "wire_round_trip demo_cipher"
  by (simp add: wire_round_trip_def demo_cipher_def demo_parse_stringify)

lemma demo_gcm: "gcm_round_trip demo_cipher"
  by (simp add: gcm_round_trip_def demo_cipher_def comp_def)


definition demo_key :: key_data where
  "demo_key =
     \<lparr>key_id = ''0011223344556677'', key_value = replicate 64 (CHR ''0''), key_createdAt = 0,
      key_rotatedAt = None, key_algorithm = ''aes-256-gcm'', key_length = 256\<rparr>"

definition demo_km :: key_manager where
  "demo_km = \<lparr>encryptionAlgorithm = ''aes-256-gcm'', keys_encryption = Some demo_key,
              keys_hmac = None, keys_pbkdf = None\<rparr>"

definition demo_iv :: "byte list" where
  "demo_iv = replicate 16 0"


lemma demo_key_length: "length (fromHex (key_value demo_key)) = 32"
  by code_simp





theorem utf8_round_trip_witness:
  "round_trip demo_cipher demo_iv demo_km (Text [0x68, 0x20AC, 0x1F600]) [(''purpose'', JStr ''pin'')] =
     Inr [0x68, 0x20AC, 0x1F600]"
proof -
  have key: "keys_encryption demo_km = Some demo_key"
    by (simp add: demo_km_def)
  have wf: "\<forall>c \<in> set [0x68, 0x20AC, 0x1F600]. scalar c"
    by (simp add: scalar_def)
  from utf8_round_trip [OF demo_gcm demo_wire key demo_key_length, of demo_iv _ _ "[0x68, 0x20AC, 0x1F600]"]
  show ?thesis
    using wf by blast
qed

text \<open>
  Claim C3 as stated fails for byte sequences that are not UTF-8: for the one byte
  \<^verbatim>\<open>0xFF\<close> the round trip returns the string U+FFFD, whose bytes are \<^verbatim>\<open>EF BF BD\<close>.
\<close>

theorem byte_round_trip_counterexample:
  "round_trip demo_cipher demo_iv demo_km (Bytes [0xFF]) [] = Inr [0xFFFD] \<and>
   Buffer_from_utf8 [0xFFFD] = [0xEF, 0xBF, 0xBD]"
proof -
  have key: "keys_encryption demo_km = Some demo_key"
    by (simp add: demo_km_def)
  have "toString_utf8 [0xFF] = [0xFFFD]"
    by (simp add: toString_utf8_def utf8_decode.simps(2))
  then have "round_trip demo_cipher demo_iv demo_km (Bytes [0xFF]) [] = Inr [0xFFFD]"
    using round_trip_decodes [OF demo_gcm demo_wire key demo_key_length, of demo_iv "Bytes [0xFF]" "[]"]
    by (simp add: plain_bytes_def)
  moreover have "Buffer_from_utf8 [0xFFFD] = [0xEF, 0xBF, 0xBD]"
    by (simp add: Buffer_from_utf8_def utf8_char_def scalar_def)
  ultimately show ?thesis by simp
qed
section \<open>Token issuer and verifier (src/security/crypto.js, second module)\<close>

text \<open>
  The module signs and verifies with the library \<^verbatim>\<open>jsonwebtoken\<close>. Its cryptography is
  idealised: a signature names the algorithm, the signing key and the claims it covers,
  and verifies under a key exactly when that key belongs to the signing key. Key
  material is an RSA private or public key of a numbered pair, an HMAC secret, or
  \<^verbatim>\<open>null\<close>; the library takes an empty secret for a missing key. A token is the decoded form of the compact string. Claims are an
  association list; \<open>put\<close> is the object spread \<^verbatim>\<open>{...payload, k: v}\<close>. Lifetimes are in
  seconds (\<^verbatim>\<open>'1h'\<close> is 3600), clock readings in milliseconds.
\<close>

datatype keymat = RSAPrivate nat | RSAPublic nat | HMACSecret string | NoKey

datatype alg = RS256 | HS256

type_synonym claims = "(string \<times> json) list"

definition claim :: "claims \<Rightarrow> string \<Rightarrow> json option" where
  "claim c k = map_of c k"

definition put :: "string \<Rightarrow> json \<Rightarrow> claims \<Rightarrow> claims" where
  "put k v c = AList.update k v c"

datatype signature = Signature alg keymat claims

record token =
  tok_alg :: alg
  tok_claims :: claims
  tok_signature :: signature

datatype jwt_error =
    JsonWebTokenError string
  | TokenExpiredError
  | NotBeforeError
  | Error string

fun can_sign :: "alg \<Rightarrow> keymat \<Rightarrow> bool" where
  "can_sign RS256 (RSAPrivate n) = True"
| "can_sign HS256 (HMACSecret s) = (s \<noteq> [])"
| "can_sign a k = False"

fun verifies :: "alg \<Rightarrow> keymat \<Rightarrow> keymat \<Rightarrow> bool" where
  "verifies RS256 (RSAPublic n) (RSAPrivate m) = (n = m)"
| "verifies HS256 (HMACSecret s) (HMACSecret s') = (s = s' \<and> s \<noteq> [])"
| "verifies a k k' = False"

text \<open>
  \<^verbatim>\<open>jwt.sign\<close> first validates the registered claims of the payload: \<^verbatim>\<open>iat\<close>, \<^verbatim>\<open>exp\<close> and
  \<^verbatim>\<open>nbf\<close>, when present, must be numbers, and the first one that is not is reported. The
  time of issue is \<^verbatim>\<open>payload.iat || Math.floor(Date.now() / 1000)\<close>, so that an \<^verbatim>\<open>iat\<close> of
  zero is replaced by the clock.
\<close>

definition is_number :: "json \<Rightarrow> bool" where
  "is_number v = (case v of JNum n \<Rightarrow> True | _ \<Rightarrow> False)"

definition validatePayload :: "claims \<Rightarrow> string option" where
  "validatePayload payload =
    map_option fst
      (find (\<lambda>kv. fst kv \<in> set [''iat'', ''exp'', ''nbf''] \<and> \<not> is_number (snd kv)) payload)"

definition jwt_sign :: "int \<Rightarrow> claims \<Rightarrow> keymat \<Rightarrow> int \<Rightarrow> alg \<Rightarrow> jwt_error + token" where
  "jwt_sign now payload key expiresIn a =
    (if \<not> can_sign a key
     then Inl (Error ''secretOrPrivateKey does not fit the algorithm'')
     else
       case validatePayload payload of
         Some k \<Rightarrow> Inl (Error ([dquote] @ k @ [dquote] @ '' should be a number of seconds''))
       | None \<Rightarrow>
           if claim payload ''exp'' \<noteq> None
           then Inl (Error (''Bad '' @ [dquote] @ ''options.expiresIn'' @ [dquote] @
                            '' option the payload already has an '' @ [dquote] @ ''exp'' @
                            [dquote] @ '' property.''))
           else
             let timestamp = (case claim payload ''iat'' of
                                Some (JNum t) \<Rightarrow> if t = 0 then now div 1000 else t
                              | _ \<Rightarrow> now div 1000);
                 c = put ''exp'' (JNum (timestamp + expiresIn)) (put ''iat'' (JNum timestamp) payload)
             in Inr \<lparr>tok_alg = a, tok_claims = c, tok_signature = Signature a key c\<rparr>)"

definition audience_matches :: "json option \<Rightarrow> string \<Rightarrow> bool" where
  "audience_matches aud expected =
    (case aud of
       Some (JStr s) \<Rightarrow> s = expected
     | Some (JArr xs) \<Rightarrow> JStr expected \<in> set xs
     | _ \<Rightarrow> False)"

definition signature_valid :: "keymat \<Rightarrow> token \<Rightarrow> bool" where
  "signature_valid key tok =
    (case tok_signature tok of
       Signature a signer c \<Rightarrow> a = tok_alg tok \<and> c = tok_claims tok \<and> verifies a key signer)"

definition jwt_verify ::
  "int \<Rightarrow> token \<Rightarrow> keymat \<Rightarrow> alg list \<Rightarrow> string option \<Rightarrow> string option \<Rightarrow> jwt_error + claims" where
  "jwt_verify now tok key algorithms opt_issuer opt_audience =
    (let payload = tok_claims tok; clockTimestamp = now div 1000 in
     if key = NoKey \<or> key = HMACSecret []
     then Inl (JsonWebTokenError ''secret or public key must be provided'')
     else if tok_alg tok \<notin> set algorithms then Inl (JsonWebTokenError ''invalid algorithm'')
     else if \<not> signature_valid key tok then Inl (JsonWebTokenError ''invalid signature'')
     else if (case claim payload ''nbf'' of None \<Rightarrow> False | Some v \<Rightarrow> \<not> is_number v)
     then Inl (JsonWebTokenError ''invalid nbf value'')
     else if (case claim payload ''nbf'' of Some (JNum n) \<Rightarrow> n > clockTimestamp | _ \<Rightarrow> False)
     then Inl NotBeforeError
     else if (case claim payload ''exp'' of None \<Rightarrow> False | Some v \<Rightarrow> \<not> is_number v)
     then Inl (JsonWebTokenError ''invalid exp value'')
     else if (case claim payload ''exp'' of Some (JNum e) \<Rightarrow> clockTimestamp \<ge> e | _ \<Rightarrow> False)
     then Inl TokenExpiredError
     else if (case opt_audience of None \<Rightarrow> False
              | Some a \<Rightarrow> \<not> audience_matches (claim payload ''aud'') a)
     then Inl (JsonWebTokenError ''jwt audience invalid'')
     else if (case opt_issuer of None \<Rightarrow> False
              | Some i \<Rightarrow> claim payload ''iss'' \<noteq> Some (JStr i))
     then Inl (JsonWebTokenError ''jwt issuer invalid'')
     else Inr payload)"

text \<open>
  The module state: the key pair in memory, the flag \<^verbatim>\<open>isRSA\<close> computed once when the
  module is loaded, and the time of the last rotation. \<^verbatim>\<open>generateRSAKeys\<close> draws the new
  material; its three outcomes are an input of \<^verbatim>\<open>rotateKeysIfNeeded\<close>. SHA-256 is the
  parameter \<open>sha\<close>.
\<close>

record jwt_config =
  isLocal :: bool
  JWT_SECRET :: "string option"

record jwt_keys =
  privateKey :: keymat
  publicKey :: keymat
  isRSA :: bool
  lastKeyRotation :: int

datatype keygen = NewPair nat | FallbackSecret string | KeygenFails

definition KEY_ROTATION_INTERVAL :: int where
  "KEY_ROTATION_INTERVAL = 24 * 60 * 60 * 1000"

definition rotateKeysIfNeeded :: "jwt_config \<Rightarrow> keygen \<Rightarrow> int \<Rightarrow> jwt_keys \<Rightarrow> jwt_keys" where
  "rotateKeysIfNeeded cfg newKeys now st =
    (if \<not> isLocal cfg \<and> now - lastKeyRotation st > KEY_ROTATION_INTERVAL
     then
       case newKeys of
         NewPair n \<Rightarrow>
           st\<lparr>privateKey := RSAPrivate n, publicKey := RSAPublic n, lastKeyRotation := now\<rparr>
       | FallbackSecret s \<Rightarrow>
           st\<lparr>privateKey := HMACSecret s, publicKey := NoKey, lastKeyRotation := now\<rparr>
       | KeygenFails \<Rightarrow> st
     else st)"

fun render :: "json option \<Rightarrow> string" where
  "render None = ''undefined''"
| "render (Some JNull) = ''null''"
| "render (Some (JBool b)) = (if b then ''true'' else ''false'')"
| "render (Some (JNum n)) = show_int n"
| "render (Some (JStr s)) = s"
| "render (Some (JArr xs)) = join '','' (map (\<lambda>x. if x = JNull then [] else render (Some x)) xs)"
| "render (Some (JObj kvs)) = ''[object Object]''"

definition generateDeviceFingerprint ::
  "(string \<Rightarrow> byte list) \<Rightarrow> jwt_config \<Rightarrow> json option \<Rightarrow> json option \<Rightarrow> string" where
  "generateDeviceFingerprint sha cfg deviceId userId =
    (let secret = (if truthy (JWT_SECRET cfg) then render (map_option JStr (JWT_SECRET cfg))
                   else ''fallback-secret'');
         data = render deviceId @ '':'' @ render userId @ '':'' @ secret
     in toHex (sha data))"

definition generateToken ::
  "(string \<Rightarrow> byte list) \<Rightarrow> jwt_config \<Rightarrow> keygen \<Rightarrow> int \<Rightarrow> claims \<Rightarrow> int \<Rightarrow> bool \<Rightarrow> jwt_keys
     \<Rightarrow> (jwt_error + token) \<times> jwt_keys" where
  "generateToken sha cfg newKeys now payload expiresIn useFingerprint st =
    (let tokenPayload1 =
           (if useFingerprint \<and> \<not> falsy (claim payload ''deviceId'')
            then put ''fingerprint''
                   (JStr (generateDeviceFingerprint sha cfg (claim payload ''deviceId'')
                            (claim payload ''userId''))) payload
            else payload);
         tokenPayload =
           (if \<not> isLocal cfg
            then put ''iat'' (JNum (now div 1000))
                   (put ''aud'' (JStr ''tracas-app'') (put ''iss'' (JStr ''tracas-api'') tokenPayload1))
            else tokenPayload1);
         st1 = rotateKeysIfNeeded cfg newKeys now st
     in (jwt_sign now tokenPayload (privateKey st1) expiresIn (if isRSA st1 then RS256 else HS256),
         st1))"

definition verifyToken ::
  "(string \<Rightarrow> byte list) \<Rightarrow> jwt_config \<Rightarrow> int \<Rightarrow> token \<Rightarrow> jwt_keys \<Rightarrow> jwt_error + claims" where
  "verifyToken sha cfg now tok st =
    (case jwt_verify now tok (if isRSA st then publicKey st else privateKey st)
            (if isRSA st then [RS256] else [HS256])
            (if \<not> isLocal cfg then Some ''tracas-api'' else None)
            (if \<not> isLocal cfg then Some ''tracas-app'' else None) of
       Inl e \<Rightarrow> Inl e
     | Inr decoded \<Rightarrow>
         if falsy (claim decoded ''fingerprint'') \<or> falsy (claim decoded ''deviceId'')
         then Inr decoded
         else
           let expectedFingerprint =
                 generateDeviceFingerprint sha cfg (claim decoded ''deviceId'') (claim decoded ''userId'')
           in if claim decoded ''fingerprint'' \<noteq> Some (JStr expectedFingerprint)
              then Inl (Error ''Invalid token fingerprint'')
              else Inr decoded)"


subsection \<open>When a token is accepted\<close>

definition verification_key :: "jwt_keys \<Rightarrow> keymat" where
  "verification_key st = (if isRSA st then publicKey st else privateKey st)"

definition current_alg :: "jwt_keys \<Rightarrow> alg" where
  "current_alg st = (if isRSA st then RS256 else HS256)"

definition active :: "int \<Rightarrow> claims \<Rightarrow> bool" where
  "active now c =
    (case claim c ''nbf'' of None \<Rightarrow> True | Some (JNum n) \<Rightarrow> n \<le> now div 1000 | Some other \<Rightarrow> False)"

definition unexpired :: "int \<Rightarrow> claims \<Rightarrow> bool" where
  "unexpired now c =
    (case claim c ''exp'' of None \<Rightarrow> True | Some (JNum e) \<Rightarrow> now div 1000 < e | Some other \<Rightarrow> False)"

definition addressed :: "jwt_config \<Rightarrow> claims \<Rightarrow> bool" where
  "addressed cfg c =
    (isLocal cfg \<or>
     (audience_matches (claim c ''aud'') ''tracas-app'' \<and> claim c ''iss'' = Some (JStr ''tracas-api'')))"

definition fingerprint_checked :: "claims \<Rightarrow> bool" where
  "fingerprint_checked c = (\<not> falsy (claim c ''fingerprint'') \<and> \<not> falsy (claim c ''deviceId''))"

definition fingerprint_matches :: "(string \<Rightarrow> byte list) \<Rightarrow> jwt_config \<Rightarrow> claims \<Rightarrow> bool" where
  "fingerprint_matches sha cfg c =
    (claim c ''fingerprint'' =
       Some (JStr (generateDeviceFingerprint sha cfg (claim c ''deviceId'') (claim c ''userId''))))"

definition keypair_ok :: "jwt_keys \<Rightarrow> bool" where
  "keypair_ok st = (case privateKey st of RSAPrivate n \<Rightarrow> publicKey st = RSAPublic n | _ \<Rightarrow> True)"

definition standard_fields :: "string list" where
  "standard_fields = [''fingerprint'', ''iss'', ''aud'', ''iat'', ''exp'']"

lemma claim_put: "claim (put k v c) k' = (if k' = k then Some v else claim c k')"
  by (simp add: claim_def put_def update_conv')

lemma verifies_NoKey: "\<not> verifies a NoKey k"
  by (cases a) simp_all

lemma verifies_empty: "\<not> verifies a (HMACSecret []) k"
  by (cases a; cases k) simp_all

lemma jwt_verify_Inr:
  "jwt_verify now tok key algorithms opt_issuer opt_audience = Inr c \<longleftrightarrow>
     c = tok_claims tok \<and> tok_alg tok \<in> set algorithms \<and> signature_valid key tok \<and>
     active now (tok_claims tok) \<and> unexpired now (tok_claims tok) \<and>
     (case opt_audience of None \<Rightarrow> True
      | Some a \<Rightarrow> audience_matches (claim (tok_claims tok) ''aud'') a) \<and>
     (case opt_issuer of None \<Rightarrow> True | Some i \<Rightarrow> claim (tok_claims tok) ''iss'' = Some (JStr i))"
proof -
  have nokey: "key = NoKey \<or> key = HMACSecret [] \<Longrightarrow> \<not> signature_valid key tok"
    by (auto simp: signature_valid_def verifies_NoKey verifies_empty split: signature.splits)
  show ?thesis
    using nokey
    by (auto simp: jwt_verify_def Let_def active_def unexpired_def is_number_def
          split: option.splits json.splits)
qed

lemma verifyToken_Inr:
  "verifyToken sha cfg now tok st = Inr c \<longleftrightarrow>
     c = tok_claims tok \<and> tok_alg tok = current_alg st \<and>
     signature_valid (verification_key st) tok \<and>
     active now (tok_claims tok) \<and> unexpired now (tok_claims tok) \<and> addressed cfg (tok_claims tok) \<and>
     (fingerprint_checked (tok_claims tok) \<longrightarrow> fingerprint_matches sha cfg (tok_claims tok))"
proof (cases "jwt_verify now tok (if isRSA st then publicKey st else privateKey st)
            (if isRSA st then [RS256] else [HS256])
            (if \<not> isLocal cfg then Some ''tracas-api'' else None)
            (if \<not> isLocal cfg then Some ''tracas-app'' else None)")
  case (Inl e)
  then have "\<not> (tok_alg tok = current_alg st \<and>
     signature_valid (verification_key st) tok \<and>
     active now (tok_claims tok) \<and> unexpired now (tok_claims tok) \<and> addressed cfg (tok_claims tok))"
    using jwt_verify_Inr [of now tok "if isRSA st then publicKey st else privateKey st"
        "if isRSA st then [RS256] else [HS256]"
        "if \<not> isLocal cfg then Some ''tracas-api'' else None"
        "if \<not> isLocal cfg then Some ''tracas-app'' else None" "tok_claims tok"]
    by (auto simp: current_alg_def verification_key_def addressed_def split: if_splits)
  then show ?thesis
    using Inl by (auto simp: verifyToken_def)
next
  case (Inr d)
  then have d: "d = tok_claims tok" and ok: "tok_alg tok = current_alg st \<and>
     signature_valid (verification_key st) tok \<and>
     active now (tok_claims tok) \<and> unexpired now (tok_claims tok) \<and> addressed cfg (tok_claims tok)"
    using jwt_verify_Inr [of now tok "if isRSA st then publicKey st else privateKey st"
        "if isRSA st then [RS256] else [HS256]"
        "if \<not> isLocal cfg then Some ''tracas-api'' else None"
        "if \<not> isLocal cfg then Some ''tracas-app'' else None" d]
    by (auto simp: current_alg_def verification_key_def addressed_def split: if_splits)
  show ?thesis
    using Inr ok unfolding d
    by (auto simp: verifyToken_def Let_def fingerprint_checked_def fingerprint_matches_def)
qed


lemma rotate_keypair_ok: "keypair_ok st \<Longrightarrow> keypair_ok (rotateKeysIfNeeded cfg kg now st)"
  by (auto simp: keypair_ok_def rotateKeysIfNeeded_def split: keygen.splits keymat.splits)

lemma rotate_isRSA: "isRSA (rotateKeysIfNeeded cfg kg now st) = isRSA st"
  by (auto simp: rotateKeysIfNeeded_def split: keygen.splits)

lemma jwt_sign_Inr:
  assumes "jwt_sign now payload key life a = Inr tok"
  shows "can_sign a key \<and> tok_alg tok = a \<and> tok_signature tok = Signature a key (tok_claims tok) \<and>
         (\<exists>ts. tok_claims tok = put ''exp'' (JNum (ts + life)) (put ''iat'' (JNum ts) payload))"
  using assms
  by (auto simp: jwt_sign_def Let_def split: if_splits option.splits json.splits)

lemma generateToken_Inr:
  assumes "generateToken sha cfg kg now payload life fp st = (Inr tok, st1)"
  shows "st1 = rotateKeysIfNeeded cfg kg now st"
    and "can_sign (current_alg st1) (privateKey st1)"
    and "tok_alg tok = current_alg st1"
    and "tok_signature tok = Signature (current_alg st1) (privateKey st1) (tok_claims tok)"
    and "k \<notin> set standard_fields \<Longrightarrow> claim (tok_claims tok) k = claim payload k"
    and "\<not> isLocal cfg \<Longrightarrow> claim (tok_claims tok) ''aud'' = Some (JStr ''tracas-app'') \<and>
                          claim (tok_claims tok) ''iss'' = Some (JStr ''tracas-api'')"
    and "fp \<Longrightarrow> fingerprint_checked (tok_claims tok) \<Longrightarrow> fingerprint_matches sha cfg (tok_claims tok)"
proof -
  let ?p1 = "if fp \<and> \<not> falsy (claim payload ''deviceId'')
            then put ''fingerprint''
                   (JStr (generateDeviceFingerprint sha cfg (claim payload ''deviceId'')
                            (claim payload ''userId''))) payload
            else payload"
  let ?p = "if \<not> isLocal cfg
            then put ''iat'' (JNum (now div 1000))
                   (put ''aud'' (JStr ''tracas-app'') (put ''iss'' (JStr ''tracas-api'') ?p1))
            else ?p1"
  show st1: "st1 = rotateKeysIfNeeded cfg kg now st"
    using assms by (simp add: generateToken_def Let_def)
  have "jwt_sign now ?p (privateKey st1) life (current_alg st1) = Inr tok"
    using assms by (auto simp: generateToken_def Let_def current_alg_def)
  from jwt_sign_Inr [OF this]
  obtain ts where sg: "can_sign (current_alg st1) (privateKey st1)" "tok_alg tok = current_alg st1"
    "tok_signature tok = Signature (current_alg st1) (privateKey st1) (tok_claims tok)"
    and cl: "tok_claims tok = put ''exp'' (JNum (ts + life)) (put ''iat'' (JNum ts) ?p)"
    by blast
  show "can_sign (current_alg st1) (privateKey st1)" "tok_alg tok = current_alg st1"
    "tok_signature tok = Signature (current_alg st1) (privateKey st1) (tok_claims tok)"
    using sg by simp_all
  show "claim (tok_claims tok) k = claim payload k" if "k \<notin> set standard_fields"
    using that unfolding cl by (simp add: claim_put standard_fields_def)
  show "claim (tok_claims tok) ''aud'' = Some (JStr ''tracas-app'') \<and>
        claim (tok_claims tok) ''iss'' = Some (JStr ''tracas-api'')" if "\<not> isLocal cfg"
    using that unfolding cl by (simp add: claim_put)
  show "fingerprint_matches sha cfg (tok_claims tok)" if "fp" "fingerprint_checked (tok_claims tok)"
    using that unfolding cl
    by (auto simp: claim_put fingerprint_checked_def fingerprint_matches_def split: if_splits)
qed

lemma issued_signature_valid:
  assumes "generateToken sha cfg kg now payload life fp st = (Inr tok, st1)" and "keypair_ok st"
  shows "signature_valid (verification_key st1) tok"
proof -
  note g = generateToken_Inr [OF assms(1)]
  have kp: "keypair_ok st1"
    unfolding g(1) using assms(2) by (rule rotate_keypair_ok)
  show ?thesis
  proof (cases "isRSA st1")
    case True
    then obtain n where "privateKey st1 = RSAPrivate n"
      using g(2) by (cases "privateKey st1") (simp_all add: current_alg_def)
    then show ?thesis
      using True kp g(3,4)
      by (simp add: signature_valid_def verification_key_def keypair_ok_def current_alg_def)
  next
    case False
    then obtain s where "privateKey st1 = HMACSecret s" "s \<noteq> []"
      using g(2) by (cases "privateKey st1") (simp_all add: current_alg_def)
    then show ?thesis
      using False g(3,4)
      by (simp add: signature_valid_def verification_key_def current_alg_def)
  qed
qed

text \<open>
  Claim C2, as amended. \<^verbatim>\<open>verifyToken\<close> returns claims exactly when they are the
  token's own, the signature validates under the current key for the current algorithm,
  the time, issuer and audience checks pass, and, if the token carries both a fingerprint
  and a device id, the fingerprint recomputed from device id and user id equals the
  embedded one. A token issued by \<^verbatim>\<open>generateToken\<close> is accepted under the keys it was
  issued with while it is unexpired, with the caller's claims unchanged beside the
  standard fields.
\<close>

theorem verifyToken_returns_claims:
  "(verifyToken sha cfg now tok st = Inr c \<longleftrightarrow>
      c = tok_claims tok \<and> tok_alg tok = current_alg st \<and>
      signature_valid (verification_key st) tok \<and>
      active now (tok_claims tok) \<and> unexpired now (tok_claims tok) \<and>
      addressed cfg (tok_claims tok) \<and>
      (fingerprint_checked (tok_claims tok) \<longrightarrow> fingerprint_matches sha cfg (tok_claims tok))) \<and>
   (generateToken sha cfg kg t0 payload life True st0 = (Inr tok, st) \<and> keypair_ok st0 \<and>
    active now (tok_claims tok) \<and> unexpired now (tok_claims tok) \<longrightarrow>
      verifyToken sha cfg now tok st = Inr (tok_claims tok) \<and>
      (\<forall>k. k \<notin> set standard_fields \<longrightarrow> claim (tok_claims tok) k = claim payload k))"
proof -
  have issued: "verifyToken sha cfg now tok st = Inr (tok_claims tok) \<and>
      (\<forall>k. k \<notin> set standard_fields \<longrightarrow> claim (tok_claims tok) k = claim payload k)"
    if g: "generateToken sha cfg kg t0 payload life True st0 = (Inr tok, st)" and kp: "keypair_ok st0"
      and t: "active now (tok_claims tok)" "unexpired now (tok_claims tok)"
  proof -
    have "addressed cfg (tok_claims tok)"
      using generateToken_Inr(6) [OF g] by (auto simp: addressed_def audience_matches_def)
    then show ?thesis
      using generateToken_Inr(3,5,7) [OF g] issued_signature_valid [OF g kp] t
      by (simp add: verifyToken_Inr)
  qed
  show ?thesis
    using verifyToken_Inr [of sha cfg now tok st c] issued by blast
qed

text \<open>
  Claim C1, as amended. When a rotation installs a new key pair, \<^verbatim>\<open>verifyToken\<close>
  validates against the new key only: every token issued under the previous key is
  rejected with \<^verbatim>\<open>invalid signature\<close> from then on, at any time; tokens issued after the
  rotation are accepted under the new key and would be rejected under the previous one.
\<close>

theorem rotation_retires_previous_key:
  assumes prod: "\<not> isLocal cfg"
    and issued: "generateToken sha cfg kg0 t0 payload life fp st0 = (Inr tok, st)"
    and kp: "keypair_ok st0"
    and rsa: "isRSA st"
    and due: "now - lastKeyRotation st > KEY_ROTATION_INTERVAL"
    and fresh: "privateKey st \<noteq> RSAPrivate b"
    and rot: "st' = rotateKeysIfNeeded cfg (NewPair b) now st"
  shows "privateKey st' = RSAPrivate b \<and> publicKey st' = RSAPublic b \<and>
         (\<forall>now'. verifyToken sha cfg now' tok st' = Inl (JsonWebTokenError ''invalid signature'')) \<and>
         (\<forall>kg2 t2 payload2 life2 tok2 st2 now2.
            generateToken sha cfg kg2 t2 payload2 life2 True st' = (Inr tok2, st2) \<and>
            t2 - now \<le> KEY_ROTATION_INTERVAL \<and>
            active now2 (tok_claims tok2) \<and> unexpired now2 (tok_claims tok2) \<longrightarrow>
              st2 = st' \<and>
              verifyToken sha cfg now2 tok2 st' = Inr (tok_claims tok2) \<and>
              verifyToken sha cfg now2 tok2 st = Inl (JsonWebTokenError ''invalid signature''))"
proof -
  note g = generateToken_Inr [OF issued]
  obtain a where a: "privateKey st = RSAPrivate a"
    using g(2) rsa by (cases "privateKey st") (simp_all add: current_alg_def)
  have ab: "a \<noteq> b"
    using fresh a by simp
  have kpst: "keypair_ok st"
    unfolding g(1) using kp by (rule rotate_keypair_ok)
  then have pub: "publicKey st = RSAPublic a"
    using a by (simp add: keypair_ok_def)
  have st': "st' = st\<lparr>privateKey := RSAPrivate b, publicKey := RSAPublic b, lastKeyRotation := now\<rparr>"
    using rot prod due by (simp add: rotateKeysIfNeeded_def)
  have old: "verifyToken sha cfg now' tok st' = Inl (JsonWebTokenError ''invalid signature'')" for now'
    using g(3,4) a ab rsa unfolding st'
    by (simp add: verifyToken_def jwt_verify_def Let_def signature_valid_def current_alg_def)
  have new: "st2 = st' \<and> verifyToken sha cfg now2 tok2 st' = Inr (tok_claims tok2) \<and>
             verifyToken sha cfg now2 tok2 st = Inl (JsonWebTokenError ''invalid signature'')"
    if g2: "generateToken sha cfg kg2 t2 payload2 life2 True st' = (Inr tok2, st2)"
      and near: "t2 - now \<le> KEY_ROTATION_INTERVAL"
      and t: "active now2 (tok_claims tok2)" "unexpired now2 (tok_claims tok2)"
    for kg2 t2 payload2 life2 tok2 st2 now2
  proof -
    note h = generateToken_Inr [OF g2]
    have same: "st2 = st'"
      unfolding h(1) using near by (simp add: rotateKeysIfNeeded_def st')
    have kp': "keypair_ok st'"
      unfolding st' by (simp add: keypair_ok_def)
    have "addressed cfg (tok_claims tok2)"
      using h(6) prod by (auto simp: addressed_def audience_matches_def)
    then have acc: "verifyToken sha cfg now2 tok2 st' = Inr (tok_claims tok2)"
      using h(3,7) issued_signature_valid [OF g2 kp'] t same
      by (simp add: verifyToken_Inr)
    have rej: "verifyToken sha cfg now2 tok2 st = Inl (JsonWebTokenError ''invalid signature'')"
      using h(3,4) same ab rsa pub unfolding st'
      by (simp add: verifyToken_def jwt_verify_def Let_def signature_valid_def current_alg_def)
    show ?thesis
      using same acc rej by simp
  qed
  show ?thesis
    using old new unfolding st' by (simp (no_asm_simp)) blast
qed


subsection \<open>Concrete runs\<close>

definition demo_sha :: "string \<Rightarrow> byte list" where
  "demo_sha s = map (\<lambda>c. of_nat (of_char c)) s"

definition production_config :: jwt_config where
  "production_config = \<lparr>isLocal = False, JWT_SECRET = Some ''s3cret''\<rparr>"

definition first_keys :: jwt_keys where
  "first_keys = \<lparr>privateKey = RSAPrivate 1, publicKey = RSAPublic 1, isRSA = True, lastKeyRotation = 0\<rparr>"

definition second_keys :: jwt_keys where
  "second_keys =
     \<lparr>privateKey = RSAPrivate 2, publicKey = RSAPublic 2, isRSA = True, lastKeyRotation = 86400001\<rparr>"

definition device_claims :: claims where
  "device_claims =
     [(''userId'', JStr ''u1''), (''deviceId'', JStr ''d1''),
      (''fingerprint'', JStr (generateDeviceFingerprint demo_sha production_config
                                (Some (JStr ''d1'')) (Some (JStr ''u1'')))),
      (''iss'', JStr ''tracas-api''), (''aud'', JStr ''tracas-app''),
      (''iat'', JNum 86400), (''exp'', JNum 90000)]"

definition device_token :: token where
  "device_token = \<lparr>tok_alg = RS256, tok_claims = device_claims,
                    tok_signature = Signature RS256 (RSAPrivate 1) device_claims\<rparr>"

lemma device_token_issued:
  "generateToken demo_sha production_config KeygenFails 86400000
     [(''userId'', JStr ''u1''), (''deviceId'', JStr ''d1'')] 3600 True first_keys =
     (Inr device_token, first_keys)"
  by code_simp

text \<open>
  Claim C1 as stated fails: a token issued exactly 24 hours after the last rotation is
  accepted; one millisecond later a rotation installs pair 2, and the token, 59 minutes
  before its expiry, is rejected.
\<close>

theorem rotation_overlap_counterexample:
  "fst (generateToken demo_sha production_config KeygenFails 86400000
          [(''userId'', JStr ''u1''), (''deviceId'', JStr ''d1'')] 3600 True first_keys) =
     Inr device_token \<and>
   verifyToken demo_sha production_config 86400000 device_token first_keys =
     Inr (tok_claims device_token) \<and>
   rotateKeysIfNeeded production_config (NewPair 2) 86400001 first_keys = second_keys \<and>
   verifyToken demo_sha production_config 86400002 device_token second_keys =
     Inl (JsonWebTokenError ''invalid signature'')"
  by code_simp

theorem rotation_retires_previous_key_witness:
  "privateKey (rotateKeysIfNeeded production_config (NewPair 2) 86400001 first_keys) = RSAPrivate 2 \<and>
   verifyToken demo_sha production_config 86400002 device_token
     (rotateKeysIfNeeded production_config (NewPair 2) 86400001 first_keys) =
     Inl (JsonWebTokenError ''invalid signature'')"
proof -
  have prod: "\<not> isLocal production_config"
    by (simp add: production_config_def)
  have kp: "keypair_ok first_keys"
    by (simp add: keypair_ok_def first_keys_def)
  have rsa: "isRSA first_keys"
    by (simp add: first_keys_def)
  have due: "86400001 - lastKeyRotation first_keys > KEY_ROTATION_INTERVAL"
    by (simp add: first_keys_def KEY_ROTATION_INTERVAL_def)
  have fresh: "privateKey first_keys \<noteq> RSAPrivate 2"
    by (simp add: first_keys_def)
  from rotation_retires_previous_key [OF prod device_token_issued kp rsa due fresh refl]
  show ?thesis by blast
qed

definition plain_claims :: claims where
  "plain_claims =
     [(''userId'', JStr ''u1''), (''iss'', JStr ''tracas-api''), (''aud'', JStr ''tracas-app''),
      (''iat'', JNum 1), (''exp'', JNum 3601)]"

definition plain_token :: token where
  "plain_token = \<lparr>tok_alg = RS256, tok_claims = plain_claims,
                   tok_signature = Signature RS256 (RSAPrivate 1) plain_claims\<rparr>"

definition forged_claims :: claims where
  "forged_claims =
     [(''userId'', JStr ''u1''), (''fingerprint'', JStr ''forged''),
      (''iss'', JStr ''tracas-api''), (''aud'', JStr ''tracas-app''),
      (''iat'', JNum 1), (''exp'', JNum 3601)]"

definition forged_token :: token where
  "forged_token = \<lparr>tok_alg = RS256, tok_claims = forged_claims,
                    tok_signature = Signature RS256 (RSAPrivate 1) forged_claims\<rparr>"

text \<open>
  Claim C2 as stated fails: a token without a device id is accepted although it has no
  fingerprint, and one with a forged fingerprint and no device id is accepted too.
\<close>

theorem verifyToken_fingerprint_counterexample:
  "fst (generateToken demo_sha production_config KeygenFails 1000
          [(''userId'', JStr ''u1'')] 3600 True first_keys) = Inr plain_token \<and>
   verifyToken demo_sha production_config 2000 plain_token first_keys = Inr (tok_claims plain_token) \<and>
   claim (tok_claims plain_token) ''fingerprint'' = None \<and>
   \<not> fingerprint_matches demo_sha production_config (tok_claims plain_token) \<and>
   fst (generateToken demo_sha production_config KeygenFails 1000
          [(''userId'', JStr ''u1''), (''fingerprint'', JStr ''forged'')] 3600 True first_keys) =
     Inr forged_token \<and>
   verifyToken demo_sha production_config 2000 forged_token first_keys =
     Inr (tok_claims forged_token) \<and>
   \<not> fingerprint_matches demo_sha production_config (tok_claims forged_token)"
  by code_simp

theorem verifyToken_returns_claims_witness:
  "verifyToken demo_sha production_config 86400002 device_token first_keys =
     Inr (tok_claims device_token) \<and>
   claim (tok_claims device_token) ''userId'' = Some (JStr ''u1'')"
proof -
  have kp: "keypair_ok first_keys"
    by (simp add: keypair_ok_def first_keys_def)
  have t: "active 86400002 (tok_claims device_token)" "unexpired 86400002 (tok_claims device_token)"
    by code_simp+
  have k: "''userId'' \<notin> set standard_fields"
    by (simp add: standard_fields_def)
  have c: "claim [(''userId'', JStr ''u1''), (''deviceId'', JStr ''d1'')] ''userId'' = Some (JStr ''u1'')"
    by (simp add: claim_def)
  from verifyToken_returns_claims [of demo_sha production_config 86400002 device_token first_keys
      "tok_claims device_token" KeygenFails 86400000
      "[(''userId'', JStr ''u1''), (''deviceId'', JStr ''d1'')]" 3600 first_keys]
  show ?thesis
    using device_token_issued kp t k c by metis
qed


end
